theory Spec2Isabelle
  imports Complex_Main "HOL-Library.Multiset" "HOL-Library.Log_Nat"
begin

section \<open>Values, exceptions and time\<close>

text \<open>
  The Pizza Restaurant API is Python on top of an object-relational mapper. The model
  below is a shallow embedding of \<^verbatim>\<open>server/models/pizza.py\<close> and of
  \<^verbatim>\<open>server/controllers/restaurant_pizza_controller.py\<close>.

  \<^item> A Python \<^verbatim>\<open>float\<close> is an IEEE 754 double. Where the source computes with
    floats and the result depends on the rounding (the rating, the discount percentage),
    a float is a \<open>pyfloat\<close> and every operation rounds its exact result to the nearest
    double, a tie going to the even one (section \<open>Floats\<close>). The two money columns
    \<^verbatim>\<open>price\<close> and \<^verbatim>\<open>special_price\<close> hold finite doubles and are kept as the reals
    they denote: the comparisons of the source are exact on them, and the product of
    \<^verbatim>\<open>get_price_for_size\<close> is written as the exact product.
  \<^item> A Python \<^verbatim>\<open>int\<close> is an \<^typ>\<open>int\<close>.
  \<^item> A naive UTC \<^verbatim>\<open>datetime\<close> is the number of microseconds since the epoch, an
    \<^typ>\<open>int\<close>; \<^verbatim>\<open>datetime.utcnow()\<close> is an explicit argument \<open>now\<close> of every
    method that reads the clock.
  \<^item> A nullable column without a default is an \<open>option\<close>; a column with a default
    (\<^verbatim>\<open>is_available\<close>, \<^verbatim>\<open>rating\<close>, \<^verbatim>\<open>rating_count\<close>, \<^verbatim>\<open>order_count\<close>,
    \<^verbatim>\<open>is_special\<close>) holds a value, as it does on every row that has been stored.
  \<^item> A raised exception is a value of \<open>exn\<close>. A method that assigns to \<^verbatim>\<open>self\<close>
    returns its outcome together with the object as the call leaves it, so that what an
    exception leaves behind is part of the model.
\<close>

type_synonym datetime = int

datatype exn =
    ValueError (message: string)
  | TypeError (message: string)
  | KeyError (message: string)
  | ZeroDivisionError (message: string)
  | DatabaseError (message: string)
  | OverflowError (message: string)
  | RecursionError (message: string)
  | BadRequest (message: string)

text \<open>
  \<^verbatim>\<open>ValueError\<close> is the spec's \<open>InvalidArgument\<close>; \<open>is_ValueError\<close> is what
  \<^verbatim>\<open>except ValueError\<close> tests. \<^verbatim>\<open>BadRequest\<close> is the web framework's exception for a
  request body it cannot parse. All of these classes derive from \<^verbatim>\<open>Exception\<close>, which
  is what \<^verbatim>\<open>except Exception\<close> tests.
\<close>

section \<open>Floats\<close>

text \<open>
  An IEEE 754 binary64 value: a finite double, given by the real number it denotes, the
  two infinities, or NaN. The two zeros are one value: they compare equal, and no
  operation of the source tells them apart (a division by either raises).

  Every finite double is a multiple of \<^verbatim>\<open>2 ** -1074\<close>, the smallest positive one, with
  a significand of at most 53 bits. \<open>round_scaled\<close> rounds a magnitude, counted in that
  unit, to 53 significant bits: it drops \<open>double_shift\<close> low bits, rounding to the
  nearest and a tie to the even significand. \<open>round_to_double\<close> is the rounding of an
  exact result: it overflows to an infinity when the rounded magnitude reaches
  \<^verbatim>\<open>2 ** 1024\<close>.
\<close>

datatype pyfloat = Fin real | PInf | NInf | NaN

definition round_half_even :: "real \<Rightarrow> int" where
  "round_half_even x =
     (let f = \<lfloor>x\<rfloor>; d = x - of_int f
      in if d < 1/2 then f else if d > 1/2 then f + 1 else if even f then f else f + 1)"

definition DBL_SCALE :: nat where
  "DBL_SCALE = 1074"

definition double_shift :: "real \<Rightarrow> nat" where
  "double_shift X = nat (bitlen \<lfloor>X\<rfloor> - 53)"

definition round_scaled :: "real \<Rightarrow> int" where
  "round_scaled X = round_half_even (X / 2 ^ double_shift X) * 2 ^ double_shift X"

definition round_to_double :: "real \<Rightarrow> pyfloat" where
  "round_to_double x =
     (let Y = round_scaled (\<bar>x\<bar> * 2 ^ DBL_SCALE)
      in if Y \<ge> 2 ^ (1024 + DBL_SCALE) then (if x < 0 then NInf else PInf)
         else Fin (sgn x * of_int Y / 2 ^ DBL_SCALE))"

text \<open>The reals that are doubles: those that rounding leaves as they are.\<close>

definition is_double :: "real \<Rightarrow> bool" where
  "is_double x = (round_to_double x = Fin x)"

text \<open>
  The operators of \<^verbatim>\<open>float\<close>. A comparison with NaN is false. \<^verbatim>\<open>/\<close> raises on a zero
  divisor before it looks at the dividend. An \<^verbatim>\<open>int\<close> operand is converted first, which
  raises when it is out of the range of a double.
\<close>

fun float_neg :: "pyfloat \<Rightarrow> pyfloat" where
  "float_neg (Fin x) = Fin (- x)"
| "float_neg PInf = NInf"
| "float_neg NInf = PInf"
| "float_neg NaN = NaN"

fun float_lt :: "pyfloat \<Rightarrow> pyfloat \<Rightarrow> bool" where
  "float_lt NaN b = False"
| "float_lt a NaN = False"
| "float_lt (Fin x) (Fin y) = (x < y)"
| "float_lt a NInf = False"
| "float_lt NInf b = True"
| "float_lt PInf b = False"
| "float_lt (Fin x) PInf = True"

fun float_le :: "pyfloat \<Rightarrow> pyfloat \<Rightarrow> bool" where
  "float_le NaN b = False"
| "float_le a NaN = False"
| "float_le (Fin x) (Fin y) = (x \<le> y)"
| "float_le NInf b = True"
| "float_le a NInf = False"
| "float_le a PInf = True"
| "float_le PInf (Fin y) = False"

fun float_add :: "pyfloat \<Rightarrow> pyfloat \<Rightarrow> pyfloat" where
  "float_add (Fin x) (Fin y) = round_to_double (x + y)"
| "float_add NaN b = NaN"
| "float_add a NaN = NaN"
| "float_add PInf NInf = NaN"
| "float_add NInf PInf = NaN"
| "float_add PInf b = PInf"
| "float_add a PInf = PInf"
| "float_add NInf b = NInf"
| "float_add a NInf = NInf"

definition float_sub :: "pyfloat \<Rightarrow> pyfloat \<Rightarrow> pyfloat" where
  "float_sub a b = float_add a (float_neg b)"

fun float_mul :: "pyfloat \<Rightarrow> pyfloat \<Rightarrow> pyfloat" where
  "float_mul (Fin x) (Fin y) = round_to_double (x * y)"
| "float_mul NaN b = NaN"
| "float_mul a NaN = NaN"
| "float_mul (Fin x) b = (if x = 0 then NaN else if 0 < x then b else float_neg b)"
| "float_mul a (Fin y) = (if y = 0 then NaN else if 0 < y then a else float_neg a)"
| "float_mul PInf b = b"
| "float_mul NInf b = float_neg b"

fun float_truediv :: "pyfloat \<Rightarrow> pyfloat \<Rightarrow> exn + pyfloat" where
  "float_truediv a (Fin y) =
     (if y = 0 then Inl (ZeroDivisionError ''float division by zero'')
      else (case a of
              Fin x \<Rightarrow> Inr (round_to_double (x / y))
            | NaN \<Rightarrow> Inr NaN
            | _ \<Rightarrow> Inr (if 0 < y then a else float_neg a)))"
| "float_truediv a NaN = Inr NaN"
| "float_truediv NaN b = Inr NaN"
| "float_truediv (Fin x) b = Inr (Fin 0)"
| "float_truediv a b = Inr NaN"

definition float_of_int :: "int \<Rightarrow> exn + pyfloat" where
  "float_of_int i =
     (case round_to_double (of_int i) of
        Fin x \<Rightarrow> Inr (Fin x)
      | _ \<Rightarrow> Inl (OverflowError ''int too large to convert to float''))"

text \<open>
  \<^verbatim>\<open>round(x, 2)\<close> on a \<^verbatim>\<open>float\<close>: an infinity or NaN is returned as it is; a finite
  double is rounded exactly to the nearest multiple of \<open>1/100\<close>, a tie going to the even
  one, and the double nearest to that decimal is returned (\<^verbatim>\<open>OverflowError\<close> if there is
  none).
\<close>

definition decimal_round2 :: "real \<Rightarrow> real" where
  "decimal_round2 x = of_int (round_half_even (x * 100)) / 100"

definition py_round2 :: "pyfloat \<Rightarrow> exn + pyfloat" where
  "py_round2 a =
     (case a of
        Fin x \<Rightarrow>
          (case round_to_double (decimal_round2 x) of
             Fin y \<Rightarrow> Inr (Fin y)
           | _ \<Rightarrow> Inl (OverflowError ''rounded value too large to represent''))
      | _ \<Rightarrow> Inr a)"

section \<open>Python values\<close>

text \<open>
  Python values as far as the code meets them: the parsed body of a request, and the
  argument of \<^verbatim>\<open>set_customization_options\<close>. The keys of a \<^verbatim>\<open>dict\<close> are hashable,
  so they have a type of their own; a \<^verbatim>\<open>float\<close> key is left out of the model (its JSON
  text is \<^verbatim>\<open>repr\<close> of the double). \<open>PObject t\<close> is any other object, of the type
  named \<open>t\<close> (a \<^verbatim>\<open>set\<close>, a \<^verbatim>\<open>datetime\<close>, a model instance). A value is a finite tree:
  a container that holds itself is not a value of the model.
\<close>

datatype pykey =
    KNone
  | KBool bool
  | KInt int
  | KStr string
  | KTuple "pykey list"

datatype pyval =
    PNone
  | PBool bool
  | PInt int
  | PFloat pyfloat
  | PStr string
  | PList "pyval list"
  | PTuple "pyval list"
  | PDict "(pykey \<times> pyval) list"
  | PObject string

section \<open>The JSON codec\<close>

text \<open>
  \<^verbatim>\<open>customization_options\<close> is a \<^verbatim>\<open>db.Text\<close> column holding what \<^verbatim>\<open>json.dumps\<close>
  wrote. \<^verbatim>\<open>json\<close> belongs to Python's standard library, not to this repository;
  the model represents a JSON text by the document it denotes, so \<^verbatim>\<open>json.dumps\<close>
  maps a Python value to a document (or raises) and \<^verbatim>\<open>json.loads\<close> maps a
  document back (or raises). What the two do to values is kept: a tuple is written as
  an array, a key that is not a string is written as its text, a key or value with no
  JSON form raises \<^verbatim>\<open>TypeError\<close>, a \<^verbatim>\<open>float\<close> is written and read as the same double
  (NaN and the infinities as the tokens \<^verbatim>\<open>NaN\<close>, \<^verbatim>\<open>Infinity\<close> and \<^verbatim>\<open>-Infinity\<close>),
  and \<^verbatim>\<open>json.loads\<close> builds the \<^verbatim>\<open>dict\<close> from the members in order, a repeated key
  keeping its first place and its last value. The concrete syntax (spacing, escapes) is
  not modelled, so the empty text and a text that is no JSON at all have no
  representation in the column.

  Two limits of the interpreter reach into the codec. The conversion between an
  \<^verbatim>\<open>int\<close> and its decimal text raises \<^verbatim>\<open>ValueError\<close> when the number has more digits
  than \<^verbatim>\<open>sys.get_int_max_str_digits()\<close> (4300 unless configured; 0, and every
  interpreter older than the limit, means no limit). Encoder and decoder enter one level
  of recursion for every list, tuple or \<^verbatim>\<open>dict\<close> inside another and raise
  \<^verbatim>\<open>RecursionError\<close> when the levels left to the call are used up. \<open>interpreter\<close> holds
  the two numbers as they are when the codec is called.
\<close>

datatype json =
    JNull
  | JBool bool
  | JInt int
  | JFloat pyfloat
  | JString string
  | JArray "json list"
  | JObject "(string \<times> json) list"










section \<open>The Pizza model\<close>

text \<open>
  One field per column of \<^verbatim>\<open>class Pizza(db.Model)\<close>, in the order of the source.
  \<open>id\<close> and \<open>size\<close> are constants of HOL, so these two columns carry a suffix.
\<close>

record pizza =
  id_col :: int
  name :: string
  ingredients :: string
  price :: real
  description :: "string option"
  image_url :: "string option"
  category :: string
  size_col :: string
  is_available :: bool
  rating :: pyfloat
  rating_count :: int
  prep_time :: "int option"
  allergens :: "string option"
  calories :: "int option"
  protein :: "real option"
  carbohydrates :: "real option"
  fat :: "real option"
  sodium :: "int option"
  customization_options :: "json option"
  order_count :: int
  last_ordered_at :: "datetime option"
  is_special :: bool
  special_price :: "real option"
  special_start_date :: "datetime option"
  special_end_date :: "datetime option"




definition toggle_availability :: "pizza \<Rightarrow> (exn + unit) \<times> pizza" where
  "toggle_availability self = (Inr (), self\<lparr>is_available := \<not> is_available self\<rparr>)"

text \<open>
  \<^verbatim>\<open>update_rating\<close>. The argument is a \<^verbatim>\<open>float\<close> (an \<^verbatim>\<open>int\<close> argument behaves as the
  \<^verbatim>\<open>float\<close> of the same value). The range check raises before anything is assigned; both
  of its comparisons are false of NaN. After it, \<^verbatim>\<open>self.rating * self.rating_count\<close>
  converts the count, multiplies and rounds, the sum rounds again,
  \<^verbatim>\<open>self.rating_count += 1\<close> is stored, and the quotient by the new count rounds a third
  time; a division by zero (a count of \<open>-1\<close>) raises with the count already stored.
\<close>

definition update_rating :: "pizza \<Rightarrow> pyfloat \<Rightarrow> (exn + unit) \<times> pizza" where
  "update_rating self new_rating =
     (if float_lt new_rating (Fin 0) \<or> float_lt (Fin 5) new_rating
      then (Inl (ValueError ''Rating must be between 0 and 5''), self)
      else
        (case float_of_int (rating_count self) of
           Inl e \<Rightarrow> (Inl e, self)
         | Inr n \<Rightarrow>
             (let total_rating = float_add (float_mul (rating self) n) new_rating;
                  self1 = self\<lparr>rating_count := rating_count self + 1\<rparr>
              in (case float_of_int (rating_count self1) of
                    Inl e \<Rightarrow> (Inl e, self1)
                  | Inr n1 \<Rightarrow>
                      (case float_truediv total_rating n1 of
                         Inl e \<Rightarrow> (Inl e, self1)
                       | Inr r \<Rightarrow> (Inr (), self1\<lparr>rating := r\<rparr>))))))"

definition increment_order_count :: "pizza \<Rightarrow> datetime \<Rightarrow> (exn + unit) \<times> pizza" where
  "increment_order_count self now =
     (Inr (), self\<lparr>order_count := order_count self + 1, last_ordered_at := Some now\<rparr>)"

text \<open>
  \<^verbatim>\<open>get_current_price\<close>, with the source's two nested tests. \<^verbatim>\<open>x is None or now >= x\<close>
  reads \<open>x\<close> only when it is set.
\<close>

definition get_current_price :: "pizza \<Rightarrow> datetime \<Rightarrow> real" where
  "get_current_price self now =
     (if is_special self \<and> special_price self \<noteq> None then
        (if (special_start_date self = None \<or> now \<ge> the (special_start_date self)) \<and>
            (special_end_date self = None \<or> now \<le> the (special_end_date self))
         then the (special_price self)
         else price self)
      else price self)"

text \<open>
  \<^verbatim>\<open>get_discount_percentage\<close>: the same two tests, then
  \<^verbatim>\<open>round(((self.price - self.special_price) / self.price) * 100, 2)\<close> in double
  arithmetic: the difference, the quotient and the product are each rounded, the
  division raises when the price is zero, and \<^verbatim>\<open>round\<close> comes last. The result is a
  \<^verbatim>\<open>float\<close>; \<^verbatim>\<open>0.0\<close> is \<open>Fin 0\<close>.
\<close>

definition get_discount_percentage :: "pizza \<Rightarrow> datetime \<Rightarrow> exn + pyfloat" where
  "get_discount_percentage self now =
     (if is_special self \<and> special_price self \<noteq> None then
        (if (special_start_date self = None \<or> now \<ge> the (special_start_date self)) \<and>
            (special_end_date self = None \<or> now \<le> the (special_end_date self))
         then (case float_truediv
                      (float_sub (Fin (price self)) (Fin (the (special_price self))))
                      (Fin (price self)) of
                 Inl e \<Rightarrow> Inl e
               | Inr q \<Rightarrow> py_round2 (float_mul q (Fin 100)))
         else Inr (Fin 0))
      else Inr (Fin 0))"

definition set_special_offer ::
  "pizza \<Rightarrow> real \<Rightarrow> datetime option \<Rightarrow> datetime option \<Rightarrow> (exn + unit) \<times> pizza" where
  "set_special_offer self sp start_date end_date =
     (if sp \<ge> price self
      then (Inl (ValueError ''Special price must be less than regular price''), self)
      else (Inr (), self\<lparr>is_special := True,
                           special_price := Some sp,
                           special_start_date := start_date,
                           special_end_date := end_date\<rparr>))"

definition end_special_offer :: "pizza \<Rightarrow> (exn + unit) \<times> pizza" where
  "end_special_offer self =
     (Inr (), self\<lparr>is_special := False,
                     special_price := None,
                     special_start_date := None,
                     special_end_date := None\<rparr>)"




text \<open>
  A caller submitting several ratings one after the other; an exception ends the run,
  as it would in a script that does not catch it.
\<close>

fun update_ratings :: "pizza \<Rightarrow> pyfloat list \<Rightarrow> (exn + unit) \<times> pizza" where
  "update_ratings self [] = (Inr (), self)"
| "update_ratings self (r # rs) =
     (case update_rating self r of
        (Inl e, self1) \<Rightarrow> (Inl e, self1)
      | (Inr u, self1) \<Rightarrow> update_ratings self1 rs)"

text \<open>
  The spec's words for an offer that is valid at \<open>now\<close>: \<^verbatim>\<open>is_special\<close> is true and
  \<^verbatim>\<open>special_price\<close> is set and (no start date or now \<open>\<ge>\<close> start) and (no end date or
  now \<open>\<le>\<close> end).
\<close>

definition offer_active :: "pizza \<Rightarrow> datetime \<Rightarrow> bool" where
  "offer_active p now =
     (is_special p \<and>
      (case special_price p of None \<Rightarrow> False | Some sp \<Rightarrow> True) \<and>
      (case special_start_date p of None \<Rightarrow> True | Some s \<Rightarrow> now \<ge> s) \<and>
      (case special_end_date p of None \<Rightarrow> True | Some e \<Rightarrow> now \<le> e))"



section \<open>The RestaurantPizza model and the create-association endpoint\<close>

record restaurant_pizza =
  rp_id :: "int option"
  rp_price :: real
  pizza_id :: int
  restaurant_id :: int

text \<open>
  Modelled from the spec: the constructor of \<^verbatim>\<open>RestaurantPizza\<close>, whose module
  \<^verbatim>\<open>server/models/restaurant_pizza.py\<close> is not among the sources. Construction
  requires \<^verbatim>\<open>price\<close>, \<^verbatim>\<open>pizza_id\<close> and \<^verbatim>\<open>restaurant_id\<close>; \<^verbatim>\<open>price\<close> must be within
  [1, 30], otherwise construction fails with \<open>InvalidArgument\<close> and the message
  \<^verbatim>\<open>price must be between 1 and 30\<close>. The surrogate key is unset until the row is stored.
\<close>

definition RestaurantPizza :: "real \<Rightarrow> int \<Rightarrow> int \<Rightarrow> exn + restaurant_pizza" where
  "RestaurantPizza p pid rid =
     (if 1 \<le> p \<and> p \<le> 30
      then Inr \<lparr>rp_id = None, rp_price = p, pizza_id = pid, restaurant_id = rid\<rparr>
      else Inl (ValueError ''price must be between 1 and 30''))"

text \<open>
  \<^verbatim>\<open>data['price']\<close> on the parsed body: a missing key of a \<^verbatim>\<open>dict\<close> raises
  \<^verbatim>\<open>KeyError\<close>; a body that is no \<^verbatim>\<open>dict\<close> (a list, a string, a number, \<^verbatim>\<open>None\<close>)
  raises \<^verbatim>\<open>TypeError\<close> on a string subscript.
\<close>

definition getitem :: "pyval \<Rightarrow> string \<Rightarrow> exn + pyval" where
  "getitem obj k =
     (case obj of
        PDict kvs \<Rightarrow> (case map_of kvs (KStr k) of None \<Rightarrow> Inl (KeyError k) | Some v \<Rightarrow> Inr v)
      | _ \<Rightarrow> Inl (TypeError ''subscript must not be str, or object is not subscriptable''))"

text \<open>
  \<^verbatim>\<open>create_restaurant_pizza\<close>. The request object, the model class, the session and the
  serializer are not among the sources, so they are arguments: \<open>get_json\<close> is
  \<^verbatim>\<open>request.get_json()\<close> on the request at hand, \<open>ctor\<close> is \<^verbatim>\<open>RestaurantPizza(price=...,
  pizza_id=..., restaurant_id=...)\<close>, \<open>add_commit\<close> is \<^verbatim>\<open>db.session.add\<close> followed by
  \<^verbatim>\<open>db.session.commit\<close> (it returns the object as stored), \<open>to_dict\<close> is
  \<^verbatim>\<open>jsonify(restaurant_pizza.to_dict())\<close>; each may raise. \<open>try_block\<close> is the body of the
  \<^verbatim>\<open>try\<close> statement, the three subscripts evaluated in the order of the source, and
  \<open>handle\<close> the two \<^verbatim>\<open>except\<close> clauses. \<^verbatim>\<open>request.get_json()\<close> is called before the
  \<^verbatim>\<open>try\<close>, so what it raises leaves the function as an exception. A response is the
  pair of the body and the status code.
\<close>

definition try_block ::
  "(pyval \<Rightarrow> pyval \<Rightarrow> pyval \<Rightarrow> exn + 'rp) \<Rightarrow> ('rp \<Rightarrow> exn + 'rp) \<Rightarrow> ('rp \<Rightarrow> exn + pyval) \<Rightarrow>
   pyval \<Rightarrow> exn + (pyval \<times> nat)" where
  "try_block ctor add_commit to_dict data =
     (case getitem data ''price'' of Inl e \<Rightarrow> Inl e | Inr p \<Rightarrow>
     (case getitem data ''pizza_id'' of Inl e \<Rightarrow> Inl e | Inr pid \<Rightarrow>
     (case getitem data ''restaurant_id'' of Inl e \<Rightarrow> Inl e | Inr rid \<Rightarrow>
     (case ctor p pid rid of Inl e \<Rightarrow> Inl e | Inr restaurant_pizza \<Rightarrow>
     (case add_commit restaurant_pizza of Inl e \<Rightarrow> Inl e | Inr stored \<Rightarrow>
     (case to_dict stored of Inl e \<Rightarrow> Inl e | Inr body \<Rightarrow> Inr (body, 201)))))))"

definition errors_body :: "string \<Rightarrow> pyval" where
  "errors_body m = PDict [(KStr ''errors'', PList [PStr m])]"

definition handle :: "exn \<Rightarrow> pyval \<times> nat" where
  "handle e =
     (case e of
        ValueError m \<Rightarrow> (errors_body m, 400)
      | _ \<Rightarrow> (errors_body ''Invalid data'', 400))"

definition create_restaurant_pizza ::
  "('req \<Rightarrow> exn + pyval) \<Rightarrow> (pyval \<Rightarrow> pyval \<Rightarrow> pyval \<Rightarrow> exn + 'rp) \<Rightarrow> ('rp \<Rightarrow> exn + 'rp) \<Rightarrow>
   ('rp \<Rightarrow> exn + pyval) \<Rightarrow> 'req \<Rightarrow> exn + (pyval \<times> nat)" where
  "create_restaurant_pizza get_json ctor add_commit to_dict request =
     (case get_json request of
        Inl e \<Rightarrow> Inl e
      | Inr data \<Rightarrow>
          (case try_block ctor add_commit to_dict data of
             Inr response \<Rightarrow> Inr response
           | Inl e \<Rightarrow> Inr (handle e)))"

text \<open>
  The spec's words for the answer to an exception \<open>e\<close>: status 400 with the specific
  message when it is a \<^verbatim>\<open>ValueError\<close>, status 400 with the generic \<^verbatim>\<open>Invalid data\<close>
  for any other failure.
\<close>

definition failure_response :: "exn \<Rightarrow> pyval \<times> nat" where
  "failure_response e =
     (if is_ValueError e then (PDict [(KStr ''errors'', PList [PStr (message e)])], 400)
      else (PDict [(KStr ''errors'', PList [PStr ''Invalid data''])], 400))"

section \<open>Sample data\<close>

text \<open>
  A pizza of the seed data with a base price of 20, an interpreter with the default digit
  limit and 900 levels of recursion left, and an instance of the collaborators of the
  endpoint: a request is a body that parses as JSON or one that does not, the
  constructor takes integers from the body and validates the price, the session stores
  the row under the key 7 when its foreign keys are 1, and the serializer writes the
  four columns.
\<close>

definition margherita :: pizza where
  "margherita = \<lparr>id_col = 1, name = ''Margherita'',
     ingredients = ''Dough, Tomato Sauce, Mozzarella, Basil'', price = 20,
     description = None, image_url = None, category = ''classic'', size_col = ''medium'',
     is_available = True, rating = Fin 0, rating_count = 0, prep_time = None, allergens = None,
     calories = None, protein = None, carbohydrates = None, fat = None, sodium = None,
     customization_options = None, order_count = 0, last_ordered_at = None,
     is_special = False, special_price = None, special_start_date = None,
     special_end_date = None\<rparr>"


datatype http_request = Json_request pyval | Malformed_request string

fun sample_get_json :: "http_request \<Rightarrow> exn + pyval" where
  "sample_get_json (Json_request data) = Inr data"
| "sample_get_json (Malformed_request body) = Inl (BadRequest ''Failed to decode JSON object'')"

definition sample_ctor :: "pyval \<Rightarrow> pyval \<Rightarrow> pyval \<Rightarrow> exn + restaurant_pizza" where
  "sample_ctor p pid rid =
     (case (p, pid, rid) of
        (PInt n, PInt a, PInt b) \<Rightarrow> RestaurantPizza (of_int n) a b
      | _ \<Rightarrow> Inl (TypeError ''not an integer''))"

definition sample_add_commit :: "restaurant_pizza \<Rightarrow> exn + restaurant_pizza" where
  "sample_add_commit rp =
     (if pizza_id rp = 1 \<and> restaurant_id rp = 1 then Inr (rp\<lparr>rp_id := Some 7\<rparr>)
      else Inl (DatabaseError ''FOREIGN KEY constraint failed''))"

definition sample_to_dict :: "restaurant_pizza \<Rightarrow> exn + pyval" where
  "sample_to_dict rp =
     Inr (PDict [(KStr ''id'', (case rp_id rp of None \<Rightarrow> PNone | Some i \<Rightarrow> PInt i)),
                 (KStr ''price'', PFloat (Fin (rp_price rp))),
                 (KStr ''pizza_id'', PInt (pizza_id rp)),
                 (KStr ''restaurant_id'', PInt (restaurant_id rp))])"

definition sample_body :: "int \<Rightarrow> pyval" where
  "sample_body n = PDict [(KStr ''price'', PInt n), (KStr ''pizza_id'', PInt 1), (KStr ''restaurant_id'', PInt 1)]"

section \<open>Properties\<close>



text \<open>
  C5. \<^verbatim>\<open>set_special_offer\<close> with a special price at or above the base price raises
  \<^verbatim>\<open>ValueError\<close> and leaves the object, its four special-offer fields included, as it
  was; with a special price below the base price it succeeds, sets \<^verbatim>\<open>is_special\<close>,
  stores the special price and stores the two dates, which may be unset.
\<close>

theorem set_special_offer_checks_price:
  "(sp \<ge> price p \<longrightarrow>
      set_special_offer p sp start_date end_date =
        (Inl (ValueError ''Special price must be less than regular price''), p)) \<and>
   (sp < price p \<longrightarrow>
      set_special_offer p sp start_date end_date =
        (Inr (), p\<lparr>is_special := True, special_price := Some sp,
                    special_start_date := start_date, special_end_date := end_date\<rparr>))"
  by (simp add: set_special_offer_def)

theorem set_special_offer_checks_price_witness:
  "set_special_offer margherita 20 None None =
     (Inl (ValueError ''Special price must be less than regular price''), margherita) \<and>
   is_special (snd (set_special_offer margherita 10 (Some 5) None)) \<and>
   special_price (snd (set_special_offer margherita 10 (Some 5) None)) = Some 10 \<and>
   special_start_date (snd (set_special_offer margherita 10 (Some 5) None)) = Some 5 \<and>
   special_end_date (snd (set_special_offer margherita 10 (Some 5) None)) = None"
proof -
  have a: "(20::real) \<ge> price margherita" and b: "(10::real) < price margherita"
    by (simp_all add: margherita_def)
  note 1 = set_special_offer_checks_price [where p = margherita and sp = 20 and start_date = None and end_date = None, THEN conjunct1, THEN mp, OF a]
  note 2 = set_special_offer_checks_price [where p = margherita and sp = 10 and start_date = "Some 5" and end_date = None, THEN conjunct2, THEN mp, OF b]
  show ?thesis using 1 2 by simp
qed

text \<open>
  C4. For every pizza and every instant \<open>now\<close>, \<^verbatim>\<open>get_current_price\<close> returns the
  special price when the offer is active in the words of the spec (\<open>offer_active\<close>), and
  the base price in every other case.
\<close>

theorem get_current_price_correct:
  "(offer_active p now \<longrightarrow> special_price p = Some (get_current_price p now)) \<and>
   (\<not> offer_active p now \<longrightarrow> get_current_price p now = price p)"
  by (auto simp: offer_active_def get_current_price_def split: option.splits)

theorem get_current_price_correct_witness:
  "get_current_price (margherita\<lparr>is_special := True, special_price := Some 10,
       special_start_date := Some 5, special_end_date := Some 9\<rparr>) 7 = 10 \<and>
   get_current_price (margherita\<lparr>is_special := True, special_price := Some 10,
       special_start_date := Some 5, special_end_date := Some 9\<rparr>) 10 = 20"
proof -
  let ?p = "margherita\<lparr>is_special := True, special_price := Some 10,
       special_start_date := Some 5, special_end_date := Some 9\<rparr>"
  have a: "offer_active ?p 7" and b: "\<not> offer_active ?p 10"
    by (simp_all add: offer_active_def)
  note 1 = get_current_price_correct [of ?p 7, THEN conjunct1, THEN mp, OF a]
  note 2 = get_current_price_correct [of ?p 10, THEN conjunct2, THEN mp, OF b]
  show ?thesis using 1 2 by (simp add: margherita_def)
qed

text \<open>
  C9. \<^verbatim>\<open>set_special_offer\<close> does not compare the two dates: with a special price below
  the base price and a start date after the end date it succeeds, and at every instant
  afterwards \<^verbatim>\<open>get_current_price\<close> returns the base price and
  \<^verbatim>\<open>get_discount_percentage\<close> returns 0.0.
\<close>

theorem inverted_window_never_active:
  "sp < price p \<Longrightarrow> end_date < start_date \<Longrightarrow>
   fst (set_special_offer p sp (Some start_date) (Some end_date)) = Inr () \<and>
   is_special (snd (set_special_offer p sp (Some start_date) (Some end_date))) \<and>
   special_price (snd (set_special_offer p sp (Some start_date) (Some end_date))) = Some sp \<and>
   get_current_price (snd (set_special_offer p sp (Some start_date) (Some end_date))) now = price p \<and>
   get_discount_percentage (snd (set_special_offer p sp (Some start_date) (Some end_date))) now = Inr (Fin 0)"
  by (simp add: set_special_offer_def get_current_price_def get_discount_percentage_def)

theorem inverted_window_never_active_witness:
  "fst (set_special_offer margherita 10 (Some 9) (Some 5)) = Inr () \<and>
   get_current_price (snd (set_special_offer margherita 10 (Some 9) (Some 5))) 7 = 20 \<and>
   get_discount_percentage (snd (set_special_offer margherita 10 (Some 9) (Some 5))) 7 = Inr (Fin 0)"
proof -
  have a: "(10::real) < price margherita" by (simp add: margherita_def)
  have b: "(5::int) < 9" by simp
  from inverted_window_never_active [OF a b, of 7]
  show ?thesis by (simp add: margherita_def)
qed

text \<open>
  C1. Constructing a \<^verbatim>\<open>RestaurantPizza\<close> with a price outside [1, 30] fails with
  \<^verbatim>\<open>ValueError\<close> and the message \<^verbatim>\<open>price must be between 1 and 30\<close>; with a price of
  1, of 30 or between the two it succeeds. The constructor is the one modelled from the
  spec.
\<close>

theorem RestaurantPizza_price_range:
  "(p < 1 \<or> p > 30 \<longrightarrow>
      RestaurantPizza p pid rid = Inl (ValueError ''price must be between 1 and 30'')) \<and>
   (1 \<le> p \<and> p \<le> 30 \<longrightarrow>
      RestaurantPizza p pid rid =
        Inr \<lparr>rp_id = None, rp_price = p, pizza_id = pid, restaurant_id = rid\<rparr>)"
  by (auto simp: RestaurantPizza_def)

theorem RestaurantPizza_price_range_witness:
  "RestaurantPizza 0 1 1 = Inl (ValueError ''price must be between 1 and 30'') \<and>
   RestaurantPizza 31 1 1 = Inl (ValueError ''price must be between 1 and 30'') \<and>
   RestaurantPizza 1 1 1 = Inr \<lparr>rp_id = None, rp_price = 1, pizza_id = 1, restaurant_id = 1\<rparr> \<and>
   RestaurantPizza 30 1 1 = Inr \<lparr>rp_id = None, rp_price = 30, pizza_id = 1, restaurant_id = 1\<rparr>"
proof -
  have lo: "(0::real) < 1 \<or> (0::real) > 30" and hi: "(31::real) < 1 \<or> (31::real) > 30"
    and a: "(1::real) \<le> 1 \<and> (1::real) \<le> 30" and b: "(1::real) \<le> 30 \<and> (30::real) \<le> 30"
    by simp_all
  note 1 = RestaurantPizza_price_range [of 0 1 1, THEN conjunct1, THEN mp, OF lo]
  note 2 = RestaurantPizza_price_range [of 31 1 1, THEN conjunct1, THEN mp, OF hi]
  note 3 = RestaurantPizza_price_range [of 1 1 1, THEN conjunct2, THEN mp, OF a]
  note 4 = RestaurantPizza_price_range [of 30 1 1, THEN conjunct2, THEN mp, OF b]
  show ?thesis using 1 2 3 4 by simp
qed

text \<open>
  C2, as the code has it. The responses of \<^verbatim>\<open>POST /restaurant_pizzas\<close>, for every
  request, parser, constructor, session and serializer. An exception raised by
  \<^verbatim>\<open>request.get_json()\<close> leaves the function as it is. When the body is parsed, the
  first of the three subscripts, the construction, the commit and the serialization to
  raise decides the answer: status 400 with the message of a \<^verbatim>\<open>ValueError\<close>, status 400
  with \<^verbatim>\<open>Invalid data\<close> for any other exception (\<open>failure_response\<close>); when none of
  them raises, the answer is status 201 with the serialized object.
\<close>

theorem create_restaurant_pizza_responses:
  "(get_json request = Inl e \<longrightarrow>
      create_restaurant_pizza get_json ctor add_commit to_dict request = Inl e) \<and>
   (get_json request = Inr data \<longrightarrow>
      (getitem data ''price'' = Inl e \<longrightarrow>
         create_restaurant_pizza get_json ctor add_commit to_dict request =
           Inr (failure_response e)) \<and>
      (getitem data ''price'' = Inr p \<longrightarrow>
         (getitem data ''pizza_id'' = Inl e \<longrightarrow>
            create_restaurant_pizza get_json ctor add_commit to_dict request =
              Inr (failure_response e)) \<and>
         (getitem data ''pizza_id'' = Inr pid \<longrightarrow>
            (getitem data ''restaurant_id'' = Inl e \<longrightarrow>
               create_restaurant_pizza get_json ctor add_commit to_dict request =
                 Inr (failure_response e)) \<and>
            (getitem data ''restaurant_id'' = Inr rid \<longrightarrow>
               (ctor p pid rid = Inl e \<longrightarrow>
                  create_restaurant_pizza get_json ctor add_commit to_dict request =
                    Inr (failure_response e)) \<and>
               (ctor p pid rid = Inr rp \<longrightarrow>
                  (add_commit rp = Inl e \<longrightarrow>
                     create_restaurant_pizza get_json ctor add_commit to_dict request =
                       Inr (failure_response e)) \<and>
                  (add_commit rp = Inr stored \<longrightarrow>
                     (to_dict stored = Inl e \<longrightarrow>
                        create_restaurant_pizza get_json ctor add_commit to_dict request =
                          Inr (failure_response e)) \<and>
                     (to_dict stored = Inr body \<longrightarrow>
                        create_restaurant_pizza get_json ctor add_commit to_dict request =
                          Inr (body, 201))))))))"
proof -
  have h: "handle e = failure_response e"
    by (cases e) (simp_all add: handle_def failure_response_def errors_body_def)
  show ?thesis
    by (simp add: create_restaurant_pizza_def try_block_def h)
qed

theorem create_restaurant_pizza_responses_witness:
  "create_restaurant_pizza sample_get_json sample_ctor sample_add_commit sample_to_dict
     (Json_request (sample_body 12)) =
     Inr (PDict [(KStr ''id'', PInt 7), (KStr ''price'', PFloat (Fin 12)),
                 (KStr ''pizza_id'', PInt 1), (KStr ''restaurant_id'', PInt 1)], 201) \<and>
   create_restaurant_pizza sample_get_json sample_ctor sample_add_commit sample_to_dict
     (Json_request (sample_body 99)) =
     Inr (PDict [(KStr ''errors'', PList [PStr ''price must be between 1 and 30''])], 400) \<and>
   create_restaurant_pizza sample_get_json sample_ctor sample_add_commit sample_to_dict
     (Json_request (PDict [(KStr ''price'', PInt 12)])) =
     Inr (PDict [(KStr ''errors'', PList [PStr ''Invalid data''])], 400) \<and>
   create_restaurant_pizza sample_get_json sample_ctor sample_add_commit sample_to_dict
     (Json_request (PDict [(KStr ''price'', PInt 12), (KStr ''pizza_id'', PInt 5),
                           (KStr ''restaurant_id'', PInt 1)])) =
     Inr (PDict [(KStr ''errors'', PList [PStr ''Invalid data''])], 400) \<and>
   create_restaurant_pizza sample_get_json sample_ctor sample_add_commit sample_to_dict
     (Malformed_request ''{price'') = Inl (BadRequest ''Failed to decode JSON object'')"
proof -
  let ?rp = "\<lparr>rp_id = None, rp_price = 12, pizza_id = 1, restaurant_id = 1\<rparr>"
  let ?rp5 = "\<lparr>rp_id = None, rp_price = 12, pizza_id = 5, restaurant_id = 1\<rparr>"
  let ?body = "PDict [(KStr ''id'', PInt 7), (KStr ''price'', PFloat (Fin 12)),
             (KStr ''pizza_id'', PInt 1), (KStr ''restaurant_id'', PInt 1)]"
  let ?short = "PDict [(KStr ''price'', PInt 12)]"
  let ?other = "PDict [(KStr ''price'', PInt 12), (KStr ''pizza_id'', PInt 5),
                       (KStr ''restaurant_id'', PInt 1)]"
  note t = create_restaurant_pizza_responses [where get_json = sample_get_json
      and ctor = sample_ctor and add_commit = sample_add_commit and to_dict = sample_to_dict]
  have g12: "sample_get_json (Json_request (sample_body 12)) = Inr (sample_body 12)" by simp
  have g99: "sample_get_json (Json_request (sample_body 99)) = Inr (sample_body 99)" by simp
  have gs: "sample_get_json (Json_request ?short) = Inr ?short" by simp
  have go: "sample_get_json (Json_request ?other) = Inr ?other" by simp
  have gm: "sample_get_json (Malformed_request ''{price'') =
      Inl (BadRequest ''Failed to decode JSON object'')" by simp
  have p12: "getitem (sample_body 12) ''price'' = Inr (PInt 12)"
    and i12: "getitem (sample_body 12) ''pizza_id'' = Inr (PInt 1)"
    and r12: "getitem (sample_body 12) ''restaurant_id'' = Inr (PInt 1)"
    and p99: "getitem (sample_body 99) ''price'' = Inr (PInt 99)"
    and i99: "getitem (sample_body 99) ''pizza_id'' = Inr (PInt 1)"
    and r99: "getitem (sample_body 99) ''restaurant_id'' = Inr (PInt 1)"
    and ps: "getitem ?short ''price'' = Inr (PInt 12)"
    and ks: "getitem ?short ''pizza_id'' = Inl (KeyError ''pizza_id'')"
    and po: "getitem ?other ''price'' = Inr (PInt 12)"
    and io: "getitem ?other ''pizza_id'' = Inr (PInt 5)"
    and ro: "getitem ?other ''restaurant_id'' = Inr (PInt 1)"
    by (simp_all add: getitem_def sample_body_def)
  have c12: "sample_ctor (PInt 12) (PInt 1) (PInt 1) = Inr ?rp"
    and c99: "sample_ctor (PInt 99) (PInt 1) (PInt 1) =
      Inl (ValueError ''price must be between 1 and 30'')"
    and co: "sample_ctor (PInt 12) (PInt 5) (PInt 1) = Inr ?rp5"
    by (simp_all add: sample_ctor_def RestaurantPizza_def)
  have a12: "sample_add_commit ?rp = Inr (?rp\<lparr>rp_id := Some 7\<rparr>)"
    and ao: "sample_add_commit ?rp5 = Inl (DatabaseError ''FOREIGN KEY constraint failed'')"
    by (simp_all add: sample_add_commit_def)
  have d12: "sample_to_dict (?rp\<lparr>rp_id := Some 7\<rparr>) = Inr ?body"
    by (simp add: sample_to_dict_def)
  note 1 = t [THEN conjunct2, THEN mp, OF g12, THEN conjunct2, THEN mp, OF p12,
      THEN conjunct2, THEN mp, OF i12, THEN conjunct2, THEN mp, OF r12,
      THEN conjunct2, THEN mp, OF c12, THEN conjunct2, THEN mp, OF a12,
      THEN conjunct2, THEN mp, OF d12]
  note 2 = t [THEN conjunct2, THEN mp, OF g99, THEN conjunct2, THEN mp, OF p99,
      THEN conjunct2, THEN mp, OF i99, THEN conjunct2, THEN mp, OF r99,
      THEN conjunct1, THEN mp, OF c99]
  note 3 = t [THEN conjunct2, THEN mp, OF gs, THEN conjunct2, THEN mp, OF ps,
      THEN conjunct1, THEN mp, OF ks]
  note 4 = t [THEN conjunct2, THEN mp, OF go, THEN conjunct2, THEN mp, OF po,
      THEN conjunct2, THEN mp, OF io, THEN conjunct2, THEN mp, OF ro,
      THEN conjunct2, THEN mp, OF co, THEN conjunct1, THEN mp, OF ao]
  note 5 = t [THEN conjunct1, THEN mp, OF gm]
  show ?thesis using 1 2 3 4 5 by (simp add: failure_response_def)
qed

text \<open>
  A body that is not JSON: \<^verbatim>\<open>request.get_json()\<close> raises before the \<^verbatim>\<open>try\<close>, and the
  function ends with that exception instead of the answer 400 with \<^verbatim>\<open>Invalid data\<close>.
\<close>

theorem get_json_failure_is_not_handled:
  "create_restaurant_pizza sample_get_json sample_ctor sample_add_commit sample_to_dict
     (Malformed_request ''{price'') = Inl (BadRequest ''Failed to decode JSON object'') \<and>
   create_restaurant_pizza sample_get_json sample_ctor sample_add_commit sample_to_dict
     (Malformed_request ''{price'') \<noteq>
     Inr (failure_response (BadRequest ''Failed to decode JSON object''))"
  by (simp add: create_restaurant_pizza_def)

subsection \<open>Rounding to a double\<close>

lemma round_half_even_of_int: "round_half_even (of_int n) = n"
  by (simp add: round_half_even_def)

lemma round_half_even_lower: "of_int n \<le> x \<Longrightarrow> n \<le> round_half_even x"
proof -
  assume "of_int n \<le> x"
  then have "n \<le> \<lfloor>x\<rfloor>" by (simp add: le_floor_iff)
  then show ?thesis by (simp add: round_half_even_def Let_def)
qed

lemma round_half_even_upper:
  assumes "x \<le> of_int n"
  shows "round_half_even x \<le> n"
proof (cases "\<lfloor>x\<rfloor> = n")
  case True
  then have "of_int n \<le> x" by (metis of_int_floor_le)
  with assms have "x = of_int n" by simp
  then show ?thesis by (simp add: round_half_even_of_int)
next
  case False
  have "\<lfloor>x\<rfloor> \<le> n" using assms by (simp add: floor_le_iff)
  with False have "\<lfloor>x\<rfloor> + 1 \<le> n" by simp
  then show ?thesis by (simp add: round_half_even_def Let_def)
qed

lemma round_half_even_mono:
  assumes "x \<le> y"
  shows "round_half_even x \<le> round_half_even y"
proof (cases "\<lfloor>x\<rfloor> = \<lfloor>y\<rfloor>")
  case True
  have "x - of_int \<lfloor>x\<rfloor> \<le> y - of_int \<lfloor>y\<rfloor>" using assms True by simp
  then show ?thesis by (auto simp: round_half_even_def Let_def True)
next
  case False
  have "\<lfloor>x\<rfloor> \<le> \<lfloor>y\<rfloor>" using assms by (rule floor_mono)
  with False have "\<lfloor>x\<rfloor> + 1 \<le> \<lfloor>y\<rfloor>" by simp
  moreover have "round_half_even x \<le> \<lfloor>x\<rfloor> + 1" by (simp add: round_half_even_def Let_def)
  moreover have "\<lfloor>y\<rfloor> \<le> round_half_even y" by (simp add: round_half_even_def Let_def)
  ultimately show ?thesis by linarith
qed

lemma round_half_even_error: "\<bar>of_int (round_half_even x) - x\<bar> \<le> 1 / 2"
proof -
  have "of_int \<lfloor>x\<rfloor> \<le> x" "x < of_int \<lfloor>x\<rfloor> + 1" by linarith+
  then show ?thesis by (auto simp: round_half_even_def Let_def abs_le_iff)
qed

lemma double_shift_cases:
  assumes "0 \<le> X"
  shows "(double_shift X = 0 \<and> X < 2 ^ 53) \<or>
         (0 < double_shift X \<and> 2 ^ (52 + double_shift X) \<le> X \<and> X < 2 ^ (53 + double_shift X))"
proof (cases "\<lfloor>X\<rfloor> \<le> 0")
  case True
  then have "bitlen \<lfloor>X\<rfloor> = 0" by (simp add: bitlen_eq_zero_iff)
  moreover have "X < 1" using True by linarith
  moreover have "(1::real) \<le> 2 ^ 53" by simp
  ultimately show ?thesis by (simp add: double_shift_def)
next
  case False
  then have pos: "0 < \<lfloor>X\<rfloor>" by simp
  let ?b = "bitlen \<lfloor>X\<rfloor>"
  from bitlen_bounds [OF pos]
  have lo: "2 ^ nat (?b - 1) \<le> \<lfloor>X\<rfloor>" and hi: "\<lfloor>X\<rfloor> < 2 ^ nat ?b" by simp_all
  have b1: "1 \<le> ?b" using pos by (simp add: bitlen_alt_def)
  from hi have "\<lfloor>X\<rfloor> + 1 \<le> 2 ^ nat ?b" by simp
  then have "real_of_int (\<lfloor>X\<rfloor> + 1) \<le> real_of_int (2 ^ nat ?b)" by (rule of_int_le_iff [THEN iffD2])
  then have hiX: "X < 2 ^ nat ?b" by (simp add: floor_less_iff) linarith
  have "(2::real) ^ nat (?b - 1) = real_of_int (2 ^ nat (?b - 1))" by simp
  also have "\<dots> \<le> real_of_int \<lfloor>X\<rfloor>" using lo by (simp only: of_int_le_iff)
  also have "\<dots> \<le> X" by (rule of_int_floor_le)
  finally have loX: "2 ^ nat (?b - 1) \<le> X" .
  show ?thesis
  proof (cases "?b \<le> 53")
    case True
    then have k: "double_shift X = 0" by (simp add: double_shift_def)
    have "nat ?b \<le> 53" using True by simp
    then have "(2::real) ^ nat ?b \<le> 2 ^ 53" by (rule power_increasing) simp
    with hiX have "X < 2 ^ 53" by linarith
    with k show ?thesis by simp
  next
    case False
    then have k: "double_shift X = nat (?b - 53)" and kpos: "0 < double_shift X"
      by (simp_all add: double_shift_def)
    have e1: "nat (?b - 1) = 52 + double_shift X" using False by (simp add: k)
    have e2: "nat ?b = 53 + double_shift X" using False by (simp add: k)
    show ?thesis using kpos loX hiX by (simp add: e1 e2)
  qed
qed

lemma double_shift_unique:
  assumes "0 \<le> X" "X < 2 ^ (53 + k)" "k = 0 \<or> 2 ^ (52 + k) \<le> X"
  shows "double_shift X = k"
proof -
  let ?k' = "double_shift X"
  from double_shift_cases [OF assms(1)]
  consider "?k' = 0" "X < 2 ^ 53"
    | "0 < ?k'" "2 ^ (52 + ?k') \<le> X" "X < 2 ^ (53 + ?k')" by auto
  then show ?thesis
  proof cases
    case 1
    show ?thesis
    proof (cases "k = 0")
      case True
      then show ?thesis using 1 by simp
    next
      case False
      with assms(3) have "(2::real) ^ (52 + k) \<le> X" by simp
      with 1(2) have "(2::real) ^ (52 + k) < 2 ^ 53" by linarith
      then have "52 + k < 53"
        by (rule power_less_imp_less_exp [where a = "2::real", rotated]) simp
      with False show ?thesis by simp
    qed
  next
    case 2
    from 2(2) assms(2) have "(2::real) ^ (52 + ?k') < 2 ^ (53 + k)" by linarith
    then have a: "?k' \<le> k" by simp
    show ?thesis
    proof (cases "k = 0")
      case True
      with a show ?thesis by simp
    next
      case False
      with assms(3) have "(2::real) ^ (52 + k) \<le> X" by simp
      with 2(3) have "(2::real) ^ (52 + k) < 2 ^ (53 + ?k')" by linarith
      then have "k \<le> ?k'" by simp
      with a show ?thesis by simp
    qed
  qed
qed


lemma round_scaled_shift:
  assumes "0 \<le> X" "X < 2 ^ (53 + k)" "k = 0 \<or> 2 ^ (52 + k) \<le> X"
  shows "round_scaled X = round_half_even (X / 2 ^ k) * 2 ^ k"
  using double_shift_unique [OF assms] by (simp add: round_scaled_def)

lemma round_scaled_nonneg:
  assumes "0 \<le> X"
  shows "0 \<le> round_scaled X"
proof -
  have "0 \<le> X / 2 ^ double_shift X" using assms by simp
  then have "of_int 0 \<le> X / 2 ^ double_shift X" by simp
  then have "0 \<le> round_half_even (X / 2 ^ double_shift X)" by (rule round_half_even_lower)
  then show ?thesis by (simp add: round_scaled_def)
qed

lemma round_scaled_bounds:
  assumes "0 \<le> X"
  shows "round_scaled X \<le> 2 ^ (53 + double_shift X)"
    and "0 < double_shift X \<Longrightarrow> 2 ^ (52 + double_shift X) \<le> round_scaled X"
proof -
  let ?k = "double_shift X"
  from double_shift_cases [OF assms] have hi: "X < 2 ^ (53 + ?k)" by auto
  have "X / 2 ^ ?k \<le> 2 ^ 53" using hi by (simp add: power_add field_simps)
  then have "X / 2 ^ ?k \<le> of_int (2 ^ 53)" by simp
  then have "round_half_even (X / 2 ^ ?k) \<le> 2 ^ 53" by (rule round_half_even_upper)
  then have "round_half_even (X / 2 ^ ?k) * 2 ^ ?k \<le> 2 ^ 53 * 2 ^ ?k"
    by (rule mult_right_mono) simp
  then show "round_scaled X \<le> 2 ^ (53 + ?k)" by (simp add: round_scaled_def power_add)
  assume "0 < ?k"
  with double_shift_cases [OF assms] have lo: "2 ^ (52 + ?k) \<le> X" by auto
  have "2 ^ 52 \<le> X / 2 ^ ?k" using lo by (simp add: power_add field_simps)
  then have "of_int (2 ^ 52) \<le> X / 2 ^ ?k" by simp
  then have "2 ^ 52 \<le> round_half_even (X / 2 ^ ?k)" by (rule round_half_even_lower)
  then have "2 ^ 52 * 2 ^ ?k \<le> round_half_even (X / 2 ^ ?k) * 2 ^ ?k"
    by (rule mult_right_mono) simp
  then show "2 ^ (52 + ?k) \<le> round_scaled X" by (simp add: round_scaled_def power_add)
qed

lemma double_shift_mono:
  assumes "0 \<le> X" "X \<le> Y"
  shows "double_shift X \<le> double_shift Y"
proof -
  have "\<lfloor>X\<rfloor> \<le> \<lfloor>Y\<rfloor>" using assms(2) by (rule floor_mono)
  then have "bitlen \<lfloor>X\<rfloor> \<le> bitlen \<lfloor>Y\<rfloor>"
    by (simp add: bitlen_def floorlog_mono nat_mono)
  then show ?thesis by (simp add: double_shift_def nat_mono)
qed

lemma round_scaled_mono:
  assumes "0 \<le> X" "X \<le> Y"
  shows "round_scaled X \<le> round_scaled Y"
proof -
  have Y: "0 \<le> Y" using assms by simp
  let ?k = "double_shift X" and ?l = "double_shift Y"
  have kl: "?k \<le> ?l" using assms by (rule double_shift_mono)
  show ?thesis
  proof (cases "?k = ?l")
    case True
    have "X / 2 ^ ?l \<le> Y / 2 ^ ?l" using assms(2) by (simp add: divide_right_mono)
    then have "round_half_even (X / 2 ^ ?l) \<le> round_half_even (Y / 2 ^ ?l)"
      by (rule round_half_even_mono)
    then have "round_half_even (X / 2 ^ ?l) * 2 ^ ?l \<le> round_half_even (Y / 2 ^ ?l) * 2 ^ ?l"
      by (rule mult_right_mono) simp
    then show ?thesis by (simp add: round_scaled_def True)
  next
    case False
    with kl have lt: "?k < ?l" by simp
    then have pos: "0 < ?l" by simp
    have "round_scaled X \<le> 2 ^ (53 + ?k)" using assms(1) by (rule round_scaled_bounds(1))
    also have "(2::int) ^ (53 + ?k) \<le> 2 ^ (52 + ?l)"
      using lt by (intro power_increasing) simp_all
    also have "\<dots> \<le> round_scaled Y" using Y pos by (rule round_scaled_bounds(2))
    finally show ?thesis .
  qed
qed

lemma round_scaled_error:
  assumes "0 \<le> X"
  shows "\<bar>of_int (round_scaled X) - X\<bar> \<le> 1 / 2 + X / 2 ^ 53"
proof -
  let ?k = "double_shift X"
  let ?r = "round_half_even (X / 2 ^ ?k)"
  have e: "\<bar>of_int ?r - X / 2 ^ ?k\<bar> \<le> 1 / 2" by (rule round_half_even_error)
  have "of_int (round_scaled X) - X = (of_int ?r - X / 2 ^ ?k) * 2 ^ ?k"
    by (simp add: round_scaled_def field_simps)
  then have "\<bar>of_int (round_scaled X) - X\<bar> = \<bar>of_int ?r - X / 2 ^ ?k\<bar> * 2 ^ ?k"
    by (simp add: abs_mult)
  also have "\<dots> \<le> 1 / 2 * 2 ^ ?k" using e by (rule mult_right_mono) simp
  finally have b: "\<bar>of_int (round_scaled X) - X\<bar> \<le> 2 ^ ?k / 2" by simp
  from double_shift_cases [OF assms]
  consider "?k = 0" | "0 < ?k" "2 ^ (52 + ?k) \<le> X" by auto
  then show ?thesis
  proof cases
    case 1
    then show ?thesis using b assms by simp
  next
    case 2
    have "(2::real) ^ ?k / 2 = 2 ^ (52 + ?k) / 2 ^ 53" by (simp add: power_add)
    also have "\<dots> \<le> X / 2 ^ 53" using 2(2) by (rule divide_right_mono) simp
    finally have "(2::real) ^ ?k / 2 \<le> X / 2 ^ 53" .
    with b show ?thesis by linarith
  qed
qed

lemma round_scaled_exact:
  assumes "0 \<le> m" "m < 2 ^ 53"
  shows "round_scaled (of_int (m * 2 ^ c)) = m * 2 ^ c"
proof -
  let ?X = "real_of_int (m * 2 ^ c)"
  let ?k = "double_shift ?X"
  have X: "0 \<le> ?X" using assms(1) by simp
  have "?X < 2 ^ (53 + c)"
  proof -
    have "real_of_int m < 2 ^ 53" using assms(2) by (metis of_int_less_numeral_power_cancel_iff)
    then have "real_of_int m * 2 ^ c < 2 ^ 53 * 2 ^ c" by (rule mult_strict_right_mono) simp
    then show ?thesis by (simp add: power_add)
  qed
  have kc: "?k \<le> c"
  proof (rule ccontr)
    assume "\<not> ?k \<le> c"
    then have "c < ?k" by simp
    then have "0 < ?k" by simp
    with double_shift_cases [OF X] have "2 ^ (52 + ?k) \<le> ?X" by auto
    with \<open>?X < 2 ^ (53 + c)\<close> have "(2::real) ^ (52 + ?k) < 2 ^ (53 + c)" by linarith
    then have "52 + ?k < 53 + c"
      by (rule power_less_imp_less_exp [where a = "2::real", rotated]) simp
    with \<open>c < ?k\<close> show False by simp
  qed
  then obtain d where d: "c = ?k + d" by (metis le_Suc_ex)
  have "?X / 2 ^ ?k = of_int (m * 2 ^ d)"
    by (subst (1) d) (simp add: power_add)
  then have "round_half_even (?X / 2 ^ ?k) = m * 2 ^ d" by (simp only: round_half_even_of_int)
  then have "round_scaled ?X = m * 2 ^ d * 2 ^ ?k" by (simp add: round_scaled_def)
  also have "\<dots> = m * 2 ^ c" by (subst (2) d) (simp add: power_add)
  finally show ?thesis .
qed

lemma round_to_double_nonneg:
  assumes "0 \<le> x"
  shows "round_to_double x =
     (if round_scaled (x * 2 ^ DBL_SCALE) \<ge> 2 ^ (1024 + DBL_SCALE) then PInf
      else Fin (of_int (round_scaled (x * 2 ^ DBL_SCALE)) / 2 ^ DBL_SCALE))"
proof (cases "x = 0")
  case True
  have "round_scaled 0 = 0"
    using round_scaled_exact [of 0 0] by simp
  then show ?thesis using True by (simp add: round_to_double_def)
next
  case False
  then have "sgn x = 1" "\<not> x < 0" "\<bar>x\<bar> = x" using assms by simp_all
  then show ?thesis unfolding round_to_double_def Let_def by simp
qed


lemma round_to_double_minus: "round_to_double (- x) = float_neg (round_to_double x)"
proof (cases "x = 0")
  case True
  then show ?thesis
    using round_scaled_exact [of 0 0] by (simp add: round_to_double_def)
next
  case False
  then show ?thesis by (auto simp: round_to_double_def Let_def sgn_if)
qed

lemma round_to_double_exact_nonneg:
  assumes "0 \<le> m" "m < 2 ^ 53" "j \<le> DBL_SCALE"
  shows "round_to_double (of_int m / 2 ^ j) = Fin (of_int m / 2 ^ j)"
proof -
  obtain c where c: "DBL_SCALE = j + c" using assms(3) by (metis le_Suc_ex)
  have x: "0 \<le> real_of_int m / 2 ^ j" using assms(1) by simp
  have "real_of_int m / 2 ^ j * 2 ^ DBL_SCALE = real_of_int m / 2 ^ j * 2 ^ (j + c)"
    by (simp only: c)
  also have "\<dots> = of_int (m * 2 ^ c)" by (simp add: power_add)
  finally have X: "real_of_int m / 2 ^ j * 2 ^ DBL_SCALE = of_int (m * 2 ^ c)" .
  have r: "round_scaled (real_of_int m / 2 ^ j * 2 ^ DBL_SCALE) = m * 2 ^ c"
    unfolding X using assms(1,2) by (rule round_scaled_exact)
  have "m * 2 ^ c < 2 ^ 53 * 2 ^ c" using assms(2) by (simp add: mult_strict_right_mono)
  also have "(2::int) ^ 53 * 2 ^ c = 2 ^ (53 + c)" by (simp add: power_add)
  also have "\<dots> \<le> 2 ^ (1024 + DBL_SCALE)" using c by (intro power_increasing) simp_all
  finally have small: "\<not> 2 ^ (1024 + DBL_SCALE) \<le> m * 2 ^ c" by simp
  have "real_of_int (m * 2 ^ c) / 2 ^ DBL_SCALE = real_of_int m / 2 ^ j"
    using X [symmetric] by simp
  then show ?thesis
    unfolding round_to_double_nonneg [OF x] r using small by simp
qed

lemma round_to_double_exact:
  assumes "\<bar>m\<bar> < 2 ^ 53" "j \<le> DBL_SCALE"
  shows "round_to_double (of_int m / 2 ^ j) = Fin (of_int m / 2 ^ j)"
proof (cases "0 \<le> m")
  case True
  then show ?thesis using assms by (simp add: round_to_double_exact_nonneg)
next
  case False
  then have "0 \<le> - m" "- m < 2 ^ 53" using assms(1) by simp_all
  from round_to_double_exact_nonneg [OF this assms(2)]
  have "round_to_double (- (of_int m / 2 ^ j)) = Fin (- (of_int m / 2 ^ j))" by simp
  then have "float_neg (round_to_double (of_int m / 2 ^ j)) = Fin (- (of_int m / 2 ^ j))"
    by (simp only: round_to_double_minus)
  then show ?thesis by (cases "round_to_double (of_int m / 2 ^ j)") simp_all
qed

lemma round_to_double_of_int:
  "\<bar>m\<bar> < 2 ^ 53 \<Longrightarrow> round_to_double (of_int m) = Fin (of_int m)"
  using round_to_double_exact [of m 0] by simp

lemma round_to_double_mono:
  assumes "0 \<le> x" "x \<le> y"
  shows "float_le (round_to_double x) (round_to_double y)"
proof -
  have y: "0 \<le> y" using assms by simp
  have X: "0 \<le> x * 2 ^ DBL_SCALE" using assms(1) by simp
  have "x * 2 ^ DBL_SCALE \<le> y * 2 ^ DBL_SCALE" using assms(2) by simp
  with X have m: "round_scaled (x * 2 ^ DBL_SCALE) \<le> round_scaled (y * 2 ^ DBL_SCALE)"
    by (rule round_scaled_mono)
  then have "real_of_int (round_scaled (x * 2 ^ DBL_SCALE)) \<le> real_of_int (round_scaled (y * 2 ^ DBL_SCALE))"
    by simp
  then have "real_of_int (round_scaled (x * 2 ^ DBL_SCALE)) / 2 ^ DBL_SCALE \<le>
      real_of_int (round_scaled (y * 2 ^ DBL_SCALE)) / 2 ^ DBL_SCALE"
    by (rule divide_right_mono) simp
  then show ?thesis
    unfolding round_to_double_nonneg [OF assms(1)] round_to_double_nonneg [OF y]
    using m by auto
qed

lemma round_to_double_lower:
  assumes "round_to_double c = Fin c" "0 \<le> c" "c \<le> x"
  shows "float_le (Fin c) (round_to_double x)"
  using round_to_double_mono [OF assms(2,3)] by (simp add: assms(1))

lemma round_to_double_upper:
  assumes "round_to_double c = Fin c" "0 \<le> x" "x \<le> c"
  shows "\<exists>y. round_to_double x = Fin y \<and> 0 \<le> y \<and> y \<le> c"
proof -
  have le: "float_le (round_to_double x) (Fin c)"
    using round_to_double_mono [OF assms(2,3)] by (simp add: assms(1))
  have "0 \<le> round_scaled (x * 2 ^ DBL_SCALE)" using assms(2) by (simp add: round_scaled_nonneg)
  then have nn: "0 \<le> real_of_int (round_scaled (x * 2 ^ DBL_SCALE)) / 2 ^ DBL_SCALE" by simp
  show ?thesis
  proof (cases "round_scaled (x * 2 ^ DBL_SCALE) \<ge> 2 ^ (1024 + DBL_SCALE)")
    case True
    then have "round_to_double x = PInf" by (simp add: round_to_double_nonneg [OF assms(2)])
    with le show ?thesis by simp
  next
    case False
    then have r: "round_to_double x = Fin (real_of_int (round_scaled (x * 2 ^ DBL_SCALE)) / 2 ^ DBL_SCALE)"
      by (simp add: round_to_double_nonneg [OF assms(2)])
    with le nn show ?thesis by simp
  qed
qed

lemma round_to_double_error:
  assumes "0 \<le> x" "x < 2 ^ 1023"
  shows "\<exists>y. round_to_double x = Fin y \<and> 0 \<le> y \<and>
    \<bar>y - x\<bar> \<le> x / 2 ^ 53 + 1 / (2 * 2 ^ DBL_SCALE)"
proof -
  have c: "round_to_double (2 ^ 1023) = Fin (2 ^ 1023)"
  proof -
    have "round_scaled (real_of_int (1 * 2 ^ (1023 + DBL_SCALE))) = 1 * 2 ^ (1023 + DBL_SCALE)"
      by (rule round_scaled_exact) simp_all
    then have r: "round_scaled (2 ^ 1023 * 2 ^ DBL_SCALE) = 2 ^ (1023 + DBL_SCALE)"
      by (simp only: power_add mult_1 of_int_mult of_int_power of_int_numeral)
    have p: "(0::real) \<le> 2 ^ 1023" by simp
    have lt: "\<not> (2::int) ^ (1024 + DBL_SCALE) \<le> 2 ^ (1023 + DBL_SCALE)"
      by simp
    have v: "real_of_int (2 ^ (1023 + DBL_SCALE)) / 2 ^ DBL_SCALE = 2 ^ 1023"
      by (simp only: power_add of_int_mult of_int_power of_int_numeral) simp
    show ?thesis unfolding round_to_double_nonneg [OF p] r using lt v by simp
  qed
  have le: "x \<le> 2 ^ 1023" using assms(2) by simp
  from round_to_double_upper [OF c assms(1) le]
  obtain y where y: "round_to_double x = Fin y" "0 \<le> y" by auto
  let ?X = "x * 2 ^ DBL_SCALE"
  have X: "0 \<le> ?X" using assms(1) by simp
  have s: "(0::real) < 2 ^ DBL_SCALE" by simp
  have yv: "y = real_of_int (round_scaled ?X) / 2 ^ DBL_SCALE"
    using y(1) unfolding round_to_double_nonneg [OF assms(1)] by (simp split: if_splits)
  have "y - x = (real_of_int (round_scaled ?X) - ?X) / 2 ^ DBL_SCALE"
    using s by (simp add: yv diff_divide_distrib)
  then have "\<bar>y - x\<bar> = \<bar>real_of_int (round_scaled ?X) - ?X\<bar> / 2 ^ DBL_SCALE"
    by (simp add: abs_divide)
  also have "\<dots> \<le> (1 / 2 + ?X / 2 ^ 53) / 2 ^ DBL_SCALE"
    using round_scaled_error [OF X] by (rule divide_right_mono) simp
  also have "\<dots> = x / 2 ^ 53 + 1 / (2 * 2 ^ DBL_SCALE)"
    using s by (simp add: add_divide_distrib)
  finally show ?thesis using y by auto
qed

lemma round_scaled_idem:
  assumes "0 \<le> X"
  shows "round_scaled (of_int (round_scaled X)) = round_scaled X"
proof -
  let ?k = "double_shift X"
  let ?r = "round_half_even (X / 2 ^ ?k)"
  have Y: "round_scaled X = ?r * 2 ^ ?k" by (simp add: round_scaled_def)
  have "0 \<le> X / 2 ^ ?k" using assms by simp
  then have "of_int 0 \<le> X / 2 ^ ?k" by simp
  then have r0: "0 \<le> ?r" by (rule round_half_even_lower)
  have "?r * 2 ^ ?k \<le> 2 ^ (53 + ?k)"
    using round_scaled_bounds(1) [OF assms] by (simp only: Y)
  then have "?r * 2 ^ ?k \<le> 2 ^ 53 * 2 ^ ?k" by (simp only: power_add)
  then have r53: "?r \<le> 2 ^ 53" by simp
  show ?thesis
  proof (cases "?r = 2 ^ 53")
    case True
    have "round_scaled (real_of_int (1 * 2 ^ (53 + ?k))) = 1 * 2 ^ (53 + ?k)"
      by (rule round_scaled_exact) simp_all
    moreover have "round_scaled X = 1 * 2 ^ (53 + ?k)"
      by (simp only: Y True power_add mult_1)
    ultimately show ?thesis by simp
  next
    case False
    with r53 have "?r < 2 ^ 53" by simp
    with r0 have "round_scaled (real_of_int (?r * 2 ^ ?k)) = ?r * 2 ^ ?k"
      by (rule round_scaled_exact)
    then show ?thesis by (simp only: Y)
  qed
qed

lemma round_to_double_idem_nonneg:
  assumes "0 \<le> w" "round_to_double w = Fin z"
  shows "round_to_double z = Fin z"
proof -
  let ?Y = "round_scaled (w * 2 ^ DBL_SCALE)"
  have W: "0 \<le> w * 2 ^ DBL_SCALE" using assms(1) by simp
  from assms(2) have fin: "\<not> 2 ^ (1024 + DBL_SCALE) \<le> ?Y" and z: "z = of_int ?Y / 2 ^ DBL_SCALE"
    unfolding round_to_double_nonneg [OF assms(1)] by (simp_all split: if_splits)
  have Y0: "0 \<le> ?Y" using W by (rule round_scaled_nonneg)
  have z0: "0 \<le> z" using Y0 by (simp add: z)
  have zs: "z * 2 ^ DBL_SCALE = of_int ?Y" by (simp add: z)
  have "round_scaled (z * 2 ^ DBL_SCALE) = ?Y"
    unfolding zs using W by (rule round_scaled_idem)
  then show ?thesis
    unfolding round_to_double_nonneg [OF z0] using fin by (simp add: z)
qed

lemma round_to_double_idem:
  assumes "round_to_double w = Fin z"
  shows "is_double z"
proof (cases "0 \<le> w")
  case True
  then show ?thesis using assms by (simp add: is_double_def round_to_double_idem_nonneg)
next
  case False
  then have w: "0 \<le> - w" by simp
  have "round_to_double (- w) = Fin (- z)"
    by (simp add: round_to_double_minus assms)
  with w have "round_to_double (- z) = Fin (- z)" by (rule round_to_double_idem_nonneg)
  then have "float_neg (round_to_double z) = Fin (- z)" by (simp only: round_to_double_minus)
  then show ?thesis by (cases "round_to_double z") (simp_all add: is_double_def)
qed

lemma double_integral:
  assumes "is_double z" "2 ^ 53 \<le> z"
  shows "\<exists>n. z = of_int n"
proof -
  let ?X = "z * 2 ^ DBL_SCALE"
  let ?k = "double_shift ?X"
  let ?r = "round_half_even (?X / 2 ^ ?k)"
  have z0: "0 \<le> z" using assms(2) by simp
  have X: "0 \<le> ?X" using z0 by simp
  define Y where "Y = round_scaled ?X"
  from assms(1) have "z = of_int Y / 2 ^ DBL_SCALE"
    unfolding is_double_def round_to_double_nonneg [OF z0] Y_def by (simp split: if_splits)
  then have "real_of_int Y = z * 2 ^ DBL_SCALE" by simp
  then have Yz: "real_of_int (round_scaled ?X) = z * 2 ^ DBL_SCALE" by (simp only: Y_def)
  have "(2::real) ^ (53 + DBL_SCALE) = 2 ^ 53 * 2 ^ DBL_SCALE" by (simp only: power_add)
  also have "\<dots> \<le> z * 2 ^ DBL_SCALE" using assms(2) by (rule mult_right_mono) simp
  also have "\<dots> = real_of_int (round_scaled ?X)" by (simp only: Yz)
  also have "\<dots> \<le> real_of_int (2 ^ (53 + ?k))"
    using round_scaled_bounds(1) [OF X] by (simp only: of_int_le_iff)
  finally have "(2::real) ^ (53 + DBL_SCALE) \<le> 2 ^ (53 + ?k)" by simp
  then have "53 + DBL_SCALE \<le> 53 + ?k"
    by (rule power_le_imp_le_exp [where a = "2::real", rotated]) simp
  then obtain d where d: "?k = DBL_SCALE + d" by (metis add_le_cancel_left le_Suc_ex)
  have "round_scaled ?X = ?r * 2 ^ ?k" by (simp add: round_scaled_def)
  then have "real_of_int (round_scaled ?X) = of_int ?r * 2 ^ ?k" by simp
  also have "\<dots> = of_int ?r * 2 ^ d * 2 ^ DBL_SCALE"
    by (subst (2) d) (simp add: power_add)
  finally have "z * 2 ^ DBL_SCALE = of_int ?r * 2 ^ d * 2 ^ DBL_SCALE" by (simp only: Yz)
  then have "z = of_int (?r * 2 ^ d)" by simp
  then show ?thesis ..
qed

lemma round_to_double_pow1023: "round_to_double (2 ^ 1023) = Fin (2 ^ 1023)"
proof -
  have "round_scaled (real_of_int (1 * 2 ^ (1023 + DBL_SCALE))) = 1 * 2 ^ (1023 + DBL_SCALE)"
    by (rule round_scaled_exact) simp_all
  then have r: "round_scaled (2 ^ 1023 * 2 ^ DBL_SCALE) = 2 ^ (1023 + DBL_SCALE)"
    by (simp only: power_add mult_1 of_int_mult of_int_power of_int_numeral)
  have p: "(0::real) \<le> 2 ^ 1023" by simp
  have lt: "\<not> (2::int) ^ (1024 + DBL_SCALE) \<le> 2 ^ (1023 + DBL_SCALE)" by simp
  have v: "real_of_int (2 ^ (1023 + DBL_SCALE)) / 2 ^ DBL_SCALE = 2 ^ 1023"
    by (simp only: power_add of_int_mult of_int_power of_int_numeral) simp
  show ?thesis unfolding round_to_double_nonneg [OF p] r using lt v by simp
qed

lemma float_of_int_exact: "\<bar>i\<bar> < 2 ^ 53 \<Longrightarrow> float_of_int i = Inr (Fin (of_int i))"
  by (simp add: float_of_int_def round_to_double_of_int)

lemma is_double_of_int: "\<bar>i\<bar> < 2 ^ 53 \<Longrightarrow> is_double (of_int i)"
  by (simp add: is_double_def round_to_double_of_int)

lemma decimal_round2_of_int: "decimal_round2 (of_int n) = of_int n"
proof -
  have "real_of_int n * 100 = of_int (n * 100)" by simp
  then have "round_half_even (real_of_int n * 100) = n * 100"
    by (simp only: round_half_even_of_int)
  then show ?thesis by (simp add: decimal_round2_def)
qed

lemma decimal_round2_lower:
  assumes "of_int n \<le> x"
  shows "of_int n \<le> decimal_round2 x"
proof -
  have "of_int (n * 100) \<le> x * 100" using assms by simp
  then have "n * 100 \<le> round_half_even (x * 100)" by (rule round_half_even_lower)
  then have "real_of_int (n * 100) \<le> of_int (round_half_even (x * 100))" by (simp only: of_int_le_iff)
  then show ?thesis by (simp add: decimal_round2_def)
qed

lemma decimal_round2_upper:
  assumes "x \<le> of_int n"
  shows "decimal_round2 x \<le> of_int n"
proof -
  have "x * 100 \<le> of_int (n * 100)" using assms by simp
  then have "round_half_even (x * 100) \<le> n * 100" by (rule round_half_even_upper)
  then have "real_of_int (round_half_even (x * 100)) \<le> of_int (n * 100)" by (simp only: of_int_le_iff)
  then show ?thesis by (simp add: decimal_round2_def)
qed

lemma py_round2_lower:
  assumes "is_double z" "is_double (of_int n)" "0 \<le> n" "of_int n \<le> z"
  shows "\<exists>y. py_round2 (Fin z) = Inr (Fin y) \<and> of_int n \<le> y"
proof (cases "2 ^ 53 \<le> z")
  case True
  with assms(1) obtain m where m: "z = of_int m" using double_integral by blast
  have "decimal_round2 z = z" by (simp only: m decimal_round2_of_int)
  then have "py_round2 (Fin z) = Inr (Fin z)"
    using assms(1) by (simp add: py_round2_def is_double_def)
  then show ?thesis using assms(4) by simp
next
  case False
  then have "z \<le> of_int (2 ^ 53)" by simp
  then have "decimal_round2 z \<le> of_int (2 ^ 53)" by (rule decimal_round2_upper)
  also have "real_of_int (2 ^ 53) \<le> 2 ^ 1023" by simp
  finally have hi: "decimal_round2 z \<le> 2 ^ 1023" .
  have lo: "of_int n \<le> decimal_round2 z" using assms(4) by (rule decimal_round2_lower)
  have n0: "(0::real) \<le> of_int n" using assms(3) by simp
  with lo have d0: "0 \<le> decimal_round2 z" by linarith
  from round_to_double_upper [OF round_to_double_pow1023 d0 hi]
  obtain y where y: "round_to_double (decimal_round2 z) = Fin y" by auto
  have "float_le (Fin (of_int n)) (round_to_double (decimal_round2 z))"
    using assms(2) n0 lo unfolding is_double_def by (rule round_to_double_lower)
  then have "of_int n \<le> y" by (simp add: y)
  then show ?thesis by (simp add: py_round2_def y)
qed

text \<open>
  C6. The range check of \<^verbatim>\<open>update_rating\<close> lets NaN through, because both of its
  comparisons are false of NaN, so the rating does not stay within [0, 5]. On a pizza with the defaults of its
  columns the call returns without an exception, the count becomes 1 and the rating
  becomes NaN, which is not within [0, 5]; a later rating of 4 leaves it NaN.
\<close>

theorem update_rating_accepts_nan:
  "update_rating margherita NaN =
     (Inr (), margherita\<lparr>rating_count := 1, rating := NaN\<rparr>) \<and>
   \<not> (float_le (Fin 0) (rating (snd (update_rating margherita NaN))) \<and>
      float_le (rating (snd (update_rating margherita NaN))) (Fin 5)) \<and>
   update_rating (snd (update_rating margherita NaN)) (Fin 4) =
     (Inr (), margherita\<lparr>rating_count := 2, rating := NaN\<rparr>)"
proof -
  have c0: "float_of_int 0 = Inr (Fin 0)" using float_of_int_exact [of 0] by simp
  have c1: "float_of_int 1 = Inr (Fin 1)" using float_of_int_exact [of 1] by simp
  have c2: "float_of_int 2 = Inr (Fin 2)" using float_of_int_exact [of 2] by simp
  have z: "round_to_double 0 = Fin 0" using round_to_double_of_int [of 0] by simp
  have a: "update_rating margherita NaN =
     (Inr (), margherita\<lparr>rating_count := 1, rating := NaN\<rparr>)"
    by (simp add: update_rating_def margherita_def c0 c1 z)
  have b: "update_rating (margherita\<lparr>rating_count := 1, rating := NaN\<rparr>) (Fin 4) =
     (Inr (), margherita\<lparr>rating_count := 2, rating := NaN\<rparr>)"
    by (simp add: update_rating_def margherita_def c1 c2)
  show ?thesis by (simp add: a b)
qed

text \<open>
  C10, as the code has it. \<^verbatim>\<open>set_special_offer\<close> has no lower bound on the special
  price: on a pizza whose base price is a positive double it succeeds for every special
  price below the base price, zero and negative ones included. With a negative special
  price and the offer active at \<open>now\<close>, \<^verbatim>\<open>get_discount_percentage\<close> returns a value
  that is at least 100.
\<close>

theorem special_price_has_no_lower_bound:
  "is_double (price p) \<and> 0 < price p \<and> sp < price p \<longrightarrow>
     fst (set_special_offer p sp start_date end_date) = Inr () \<and>
     is_special (snd (set_special_offer p sp start_date end_date)) \<and>
     special_price (snd (set_special_offer p sp start_date end_date)) = Some sp \<and>
     price (snd (set_special_offer p sp start_date end_date)) = price p \<and>
     (sp < 0 \<and> offer_active (snd (set_special_offer p sp start_date end_date)) now \<longrightarrow>
        (\<exists>d. get_discount_percentage (snd (set_special_offer p sp start_date end_date)) now = Inr d \<and>
             float_le (Fin 100) d))"
proof (intro impI conjI)
  assume a: "is_double (price p) \<and> 0 < price p \<and> sp < price p"
  let ?q = "p\<lparr>is_special := True, special_price := Some sp,
                  special_start_date := start_date, special_end_date := end_date\<rparr>"
  from a have s: "set_special_offer p sp start_date end_date = (Inr (), ?q)"
    by (simp add: set_special_offer_def)
  show "fst (set_special_offer p sp start_date end_date) = Inr ()" by (simp add: s)
  show "is_special (snd (set_special_offer p sp start_date end_date))" by (simp add: s)
  show "special_price (snd (set_special_offer p sp start_date end_date)) = Some sp" by (simp add: s)
  show "price (snd (set_special_offer p sp start_date end_date)) = price p" by (simp add: s)
  assume b: "sp < 0 \<and> offer_active (snd (set_special_offer p sp start_date end_date)) now"
  then have act: "offer_active ?q now" by (simp add: s)
  from a have dbl: "round_to_double (price p) = Fin (price p)" and pos: "0 < price p"
    by (simp_all add: is_double_def)
  have one: "round_to_double 1 = Fin 1" using round_to_double_of_int [of 1] by simp
  have hundred: "round_to_double 100 = Fin 100" using round_to_double_of_int [of 100] by simp
  let ?diff = "float_sub (Fin (price p)) (Fin sp)"
  have diff: "?diff = round_to_double (price p - sp)" by (simp add: float_sub_def)
  have "price p \<le> price p - sp" using b by simp
  with dbl pos have d1: "float_le (Fin (price p)) ?diff"
    unfolding diff by (intro round_to_double_lower) simp_all
  have "\<exists>q. float_truediv ?diff (Fin (price p)) = Inr q \<and> float_le (Fin 1) q"
  proof (cases ?diff)
    case (Fin x)
    with d1 have "price p \<le> x" by simp
    then have "1 \<le> x / price p" using pos by (simp add: le_divide_eq)
    with one have "float_le (Fin 1) (round_to_double (x / price p))"
      by (intro round_to_double_lower) simp_all
    then show ?thesis using pos by (simp add: Fin)
  next
    case PInf
    then show ?thesis using pos by simp
  next
    case NInf
    with d1 show ?thesis by simp
  next
    case NaN
    with d1 show ?thesis by simp
  qed
  then obtain q where q: "float_truediv ?diff (Fin (price p)) = Inr q" "float_le (Fin 1) q"
    by auto
  have "\<exists>d. py_round2 (float_mul q (Fin 100)) = Inr d \<and> float_le (Fin 100) d"
  proof (cases q)
    case (Fin y)
    with q(2) have "1 \<le> y" by simp
    then have y100: "100 \<le> y * 100" by simp
    with hundred have le: "float_le (Fin 100) (round_to_double (y * 100))"
      by (intro round_to_double_lower) simp_all
    show ?thesis
    proof (cases "round_to_double (y * 100)")
      case (Fin z)
      then have dz: "is_double z" by (rule round_to_double_idem)
      from le Fin have "of_int 100 \<le> z" by simp
      moreover have "is_double (of_int 100)" by (rule is_double_of_int) simp
      ultimately obtain v where "py_round2 (Fin z) = Inr (Fin v)" "of_int 100 \<le> v"
        using py_round2_lower [OF dz, of 100] by auto
      then show ?thesis using \<open>q = Fin y\<close> Fin by simp
    next
      case PInf
      then show ?thesis using \<open>q = Fin y\<close> by (simp add: py_round2_def)
    next
      case NInf
      with le show ?thesis by simp
    next
      case NaN
      with le show ?thesis by simp
    qed
  next
    case PInf
    then show ?thesis by (simp add: py_round2_def)
  next
    case NInf
    with q(2) show ?thesis by simp
  next
    case NaN
    with q(2) show ?thesis by simp
  qed
  then obtain d where d: "py_round2 (float_mul q (Fin 100)) = Inr d" "float_le (Fin 100) d"
    by auto
  have "get_discount_percentage ?q now = Inr d"
    using act q(1) d(1)
    by (auto simp: get_discount_percentage_def offer_active_def split: option.splits)
  then show "\<exists>d. get_discount_percentage (snd (set_special_offer p sp start_date end_date)) now = Inr d \<and>
             float_le (Fin 100) d"
    using d(2) by (simp add: s)
qed

theorem special_price_has_no_lower_bound_witness:
  "fst (set_special_offer margherita 0 None None) = Inr () \<and>
   special_price (snd (set_special_offer margherita 0 None None)) = Some 0 \<and>
   fst (set_special_offer margherita (- 5) None None) = Inr () \<and>
   get_discount_percentage (snd (set_special_offer margherita (- 5) None None)) 7 = Inr (Fin 125)"
proof -
  have dbl: "is_double (price margherita)"
    using is_double_of_int [of 20] by (simp add: margherita_def)
  have a: "is_double (price margherita) \<and> 0 < price margherita \<and> 0 < price margherita"
    using dbl by (simp add: margherita_def)
  have b: "is_double (price margherita) \<and> 0 < price margherita \<and> - 5 < price margherita"
    using dbl by (simp add: margherita_def)
  note t0 = special_price_has_no_lower_bound [where p = margherita and sp = 0
      and start_date = None and end_date = None and now = 7, THEN mp, OF a]
  note t5 = special_price_has_no_lower_bound [where p = margherita and sp = "- 5"
      and start_date = None and end_date = None and now = 7, THEN mp, OF b]
  have act: "(- 5 :: real) < 0 \<and> offer_active (snd (set_special_offer margherita (- 5) None None)) 7"
    by (simp add: offer_active_def set_special_offer_def margherita_def)
  note d = t5 [THEN conjunct2, THEN conjunct2, THEN conjunct2, THEN conjunct2, THEN mp, OF act]
  have r25: "round_to_double 25 = Fin 25" using round_to_double_of_int [of 25] by simp
  have r54: "round_to_double (5 / 4) = Fin (5 / 4)"
    using round_to_double_exact [of 5 2] by (simp add: DBL_SCALE_def)
  have r125: "round_to_double 125 = Fin 125" using round_to_double_of_int [of 125] by simp
  have d125: "decimal_round2 125 = 125" using decimal_round2_of_int [of 125] by simp
  have v: "get_discount_percentage (snd (set_special_offer margherita (- 5) None None)) 7 =
      Inr (Fin 125)"
    by (simp add: get_discount_percentage_def set_special_offer_def margherita_def
        float_sub_def py_round2_def r25 r54 r125 d125)
  show ?thesis
    using t0 [THEN conjunct1] t0 [THEN conjunct2, THEN conjunct2, THEN conjunct1]
      t5 [THEN conjunct1] d v by simp
qed

text \<open>
  A base price of 1048576 and a special price of -1: the percentage before rounding is
  100.000095..., and \<^verbatim>\<open>round(..., 2)\<close> makes it 100.0, which is not above 100. Every
  intermediate result is a double, so no operation rounds before \<^verbatim>\<open>round\<close> does.
\<close>

theorem negative_special_price_discount_exactly_100:
  "fst (set_special_offer (margherita\<lparr>price := 1048576\<rparr>) (- 1) None None) = Inr () \<and>
   get_discount_percentage
     (snd (set_special_offer (margherita\<lparr>price := 1048576\<rparr>) (- 1) None None)) 7 =
     Inr (Fin 100) \<and>
   \<not> float_lt (Fin 100) (Fin 100)"
proof -
  have r1: "round_to_double 1048577 = Fin 1048577"
    using round_to_double_of_int [of 1048577] by simp
  have r2: "round_to_double (1048577 / 1048576) = Fin (1048577 / 1048576)"
    using round_to_double_exact [of 1048577 20] by (simp add: DBL_SCALE_def)
  have r3: "round_to_double (26214425 / 262144) = Fin (26214425 / 262144)"
    using round_to_double_exact [of 26214425 18] by (simp add: DBL_SCALE_def)
  have f: "\<lfloor>655360625 / 65536 :: real\<rfloor> = 10000" by (simp add: floor_unique)
  have "round_half_even (655360625 / 65536) = 10000"
    by (simp add: round_half_even_def Let_def f)
  then have d: "decimal_round2 (26214425 / 262144) = 100" by (simp add: decimal_round2_def)
  have r4: "round_to_double 100 = Fin 100" using round_to_double_of_int [of 100] by simp
  show ?thesis
    by (simp add: get_discount_percentage_def set_special_offer_def margherita_def
        float_sub_def py_round2_def r1 r2 r3 d r4)
qed

subsection \<open>The JSON round trip\<close>








subsection \<open>The running mean in double arithmetic\<close>

lemma round_to_double_normal:
  assumes "0 \<le> x" "j \<le> DBL_SCALE" "2 ^ 52 \<le> x * 2 ^ j" "x * 2 ^ j < 2 ^ 53"
  shows "round_to_double x = Fin (of_int (round_half_even (x * 2 ^ j)) / 2 ^ j)"
proof -
  obtain c where c: "DBL_SCALE = j + c" using assms(2) by (metis le_Suc_ex)
  let ?r = "round_half_even (x * 2 ^ j)"
  have X: "x * 2 ^ DBL_SCALE = x * 2 ^ j * 2 ^ c" by (simp add: c power_add)
  have X0: "0 \<le> x * 2 ^ j * 2 ^ c" using assms(1) by simp
  have hi: "x * 2 ^ j * 2 ^ c < 2 ^ (53 + c)"
  proof -
    have "x * 2 ^ j * 2 ^ c < 2 ^ 53 * 2 ^ c" using assms(4) by (rule mult_strict_right_mono) simp
    then show ?thesis by (simp only: power_add)
  qed
  have lo: "c = 0 \<or> 2 ^ (52 + c) \<le> x * 2 ^ j * 2 ^ c"
  proof -
    have "2 ^ 52 * 2 ^ c \<le> x * 2 ^ j * 2 ^ c" using assms(3) by (rule mult_right_mono) simp
    then show ?thesis by (simp only: power_add) simp
  qed
  have "round_scaled (x * 2 ^ j * 2 ^ c) = round_half_even (x * 2 ^ j * 2 ^ c / 2 ^ c) * 2 ^ c"
    using X0 hi lo by (rule round_scaled_shift)
  then have rs: "round_scaled (x * 2 ^ DBL_SCALE) = ?r * 2 ^ c" by (simp add: X)
  have "x * 2 ^ j \<le> of_int (2 ^ 53)" using assms(4) by simp
  then have "?r \<le> 2 ^ 53" by (rule round_half_even_upper)
  then have "?r * 2 ^ c \<le> 2 ^ 53 * 2 ^ c" by (rule mult_right_mono) simp
  also have "(2::int) ^ 53 * 2 ^ c = 2 ^ (53 + c)" by (simp only: power_add)
  also have "\<dots> < 2 ^ (1024 + DBL_SCALE)" by (simp add: c)
  finally have small: "\<not> 2 ^ (1024 + DBL_SCALE) \<le> ?r * 2 ^ c" by simp
  have v: "real_of_int (?r * 2 ^ c) / 2 ^ DBL_SCALE = of_int ?r / 2 ^ j"
    by (simp add: c power_add)
  show ?thesis
    unfolding round_to_double_nonneg [OF assms(1)] rs using small v by simp
qed

text \<open>
  The whole-star ratings 0, 4, 5, 5, 5, 5, 5, 0, whose mean 3.625 is a double: submitted
  in this order to a pizza with rating 0.0 and count 0 they leave the rating one unit in
  the last place above the mean (3.6250000000000004); submitted as 0, 0, 5, 5, 5, 5, 5, 4
  they leave exactly 3.625.
\<close>

theorem running_mean_is_inexact_and_depends_on_order:
  "update_ratings margherita [Fin 0, Fin 4, Fin 5, Fin 5, Fin 5, Fin 5, Fin 5, Fin 0] =
     (Inr (), margherita\<lparr>rating_count := 8,
                rating := Fin (8162774324609025 / 2251799813685248)\<rparr>) \<and>
   update_ratings margherita [Fin 0, Fin 0, Fin 5, Fin 5, Fin 5, Fin 5, Fin 5, Fin 4] =
     (Inr (), margherita\<lparr>rating_count := 8, rating := Fin (29 / 8)\<rparr>) \<and>
   (8162774324609025 / 2251799813685248 :: real) \<noteq> (0 + 4 + 5 + 5 + 5 + 5 + 5 + 0) / 8"
proof -
  have c0: "float_of_int 0 = Inr (Fin 0)" using float_of_int_exact [of 0] by simp
  have c1: "float_of_int 1 = Inr (Fin 1)" using float_of_int_exact [of 1] by simp
  have c2: "float_of_int 2 = Inr (Fin 2)" using float_of_int_exact [of 2] by simp
  have c3: "float_of_int 3 = Inr (Fin 3)" using float_of_int_exact [of 3] by simp
  have c4: "float_of_int 4 = Inr (Fin 4)" using float_of_int_exact [of 4] by simp
  have c5: "float_of_int 5 = Inr (Fin 5)" using float_of_int_exact [of 5] by simp
  have c6: "float_of_int 6 = Inr (Fin 6)" using float_of_int_exact [of 6] by simp
  have c7: "float_of_int 7 = Inr (Fin 7)" using float_of_int_exact [of 7] by simp
  have c8: "float_of_int 8 = Inr (Fin 8)" using float_of_int_exact [of 8] by simp
  note cs = c0 c1 c2 c3 c4 c5 c6 c7 c8
  have rd0: "round_to_double (0) = Fin (0)"
    using round_to_double_of_int [of 0] by simp
  have rd1: "round_to_double (4) = Fin (4)"
    using round_to_double_of_int [of 4] by simp
  have rd2: "round_to_double (2) = Fin (2)"
    using round_to_double_of_int [of 2] by simp
  have rd3: "round_to_double (9) = Fin (9)"
    using round_to_double_of_int [of 9] by simp
  have rd4: "round_to_double (3) = Fin (3)"
    using round_to_double_of_int [of 3] by simp
  have rd5: "round_to_double (14) = Fin (14)"
    using round_to_double_of_int [of 14] by simp
  have rd6: "round_to_double (7 / 2) = Fin (7 / 2)"
    using round_to_double_exact [of 7 1] by (simp add: DBL_SCALE_def)
  have rd7: "round_to_double (19) = Fin (19)"
    using round_to_double_of_int [of 19] by simp
  have rd8: "round_to_double (19 / 5) = Fin (4278419646001971 / 1125899906842624)"
    using round_to_double_normal [of "19 / 5" 51]
    by (simp add: DBL_SCALE_def round_half_even_def)
  have rd9: "round_to_double (21392098230009855 / 1125899906842624) = Fin (19)"
    using round_to_double_normal [of "21392098230009855 / 1125899906842624" 48]
    by (simp add: DBL_SCALE_def round_half_even_def)
  have rd10: "round_to_double (24) = Fin (24)"
    using round_to_double_of_int [of 24] by simp
  have rd11: "round_to_double (29) = Fin (29)"
    using round_to_double_of_int [of 29] by simp
  have rd12: "round_to_double (29 / 7) = Fin (4664442471205157 / 1125899906842624)"
    using round_to_double_normal [of "29 / 7" 50]
    by (simp add: DBL_SCALE_def round_half_even_def)
  have rd13: "round_to_double (32651097298436099 / 1125899906842624) = Fin (8162774324609025 / 281474976710656)"
    using round_to_double_normal [of "32651097298436099 / 1125899906842624" 48]
    by (simp add: DBL_SCALE_def round_half_even_def)
  have rd14: "round_to_double (8162774324609025 / 281474976710656) = Fin (8162774324609025 / 281474976710656)"
    using round_to_double_exact [of 8162774324609025 48] by (simp add: DBL_SCALE_def)
  have rd15: "round_to_double (8162774324609025 / 2251799813685248) = Fin (8162774324609025 / 2251799813685248)"
    using round_to_double_exact [of 8162774324609025 51] by (simp add: DBL_SCALE_def)
  have rd16: "round_to_double (5) = Fin (5)"
    using round_to_double_of_int [of 5] by simp
  have rd17: "round_to_double (5 / 3) = Fin (7505999378950827 / 4503599627370496)"
    using round_to_double_normal [of "5 / 3" 52]
    by (simp add: DBL_SCALE_def round_half_even_def)
  have rd18: "round_to_double (22517998136852481 / 4503599627370496) = Fin (5)"
    using round_to_double_normal [of "22517998136852481 / 4503599627370496" 50]
    by (simp add: DBL_SCALE_def round_half_even_def)
  have rd19: "round_to_double (10) = Fin (10)"
    using round_to_double_of_int [of 10] by simp
  have rd20: "round_to_double (5 / 2) = Fin (5 / 2)"
    using round_to_double_exact [of 5 1] by (simp add: DBL_SCALE_def)
  have rd21: "round_to_double (15) = Fin (15)"
    using round_to_double_of_int [of 15] by simp
  have rd22: "round_to_double (20) = Fin (20)"
    using round_to_double_of_int [of 20] by simp
  have rd23: "round_to_double (10 / 3) = Fin (7505999378950827 / 2251799813685248)"
    using round_to_double_normal [of "10 / 3" 51]
    by (simp add: DBL_SCALE_def round_half_even_def)
  have rd24: "round_to_double (22517998136852481 / 1125899906842624) = Fin (20)"
    using round_to_double_normal [of "22517998136852481 / 1125899906842624" 48]
    by (simp add: DBL_SCALE_def round_half_even_def)
  have rd25: "round_to_double (25) = Fin (25)"
    using round_to_double_of_int [of 25] by simp
  have rd26: "round_to_double (25 / 7) = Fin (8042142191733029 / 2251799813685248)"
    using round_to_double_normal [of "25 / 7" 51]
    by (simp add: DBL_SCALE_def round_half_even_def)
  have rd27: "round_to_double (56294995342131203 / 2251799813685248) = Fin (25)"
    using round_to_double_normal [of "56294995342131203 / 2251799813685248" 48]
    by (simp add: DBL_SCALE_def round_half_even_def)
  have rd28: "round_to_double (29 / 8) = Fin (29 / 8)"
    using round_to_double_exact [of 29 3] by (simp add: DBL_SCALE_def)
  note rds = rd0 rd1 rd2 rd3 rd4 rd5 rd6 rd7 rd8 rd9 rd10 rd11 rd12 rd13 rd14 rd15 rd16 rd17 rd18 rd19 rd20 rd21 rd22 rd23 rd24 rd25 rd26 rd27 rd28
  have a: "update_ratings margherita [Fin 0, Fin 4, Fin 5, Fin 5, Fin 5, Fin 5, Fin 5, Fin 0] =
     (Inr (), margherita\<lparr>rating_count := 8,
                rating := Fin (8162774324609025 / 2251799813685248)\<rparr>)"
    by (simp add: update_rating_def margherita_def cs rds)
  have b: "update_ratings margherita [Fin 0, Fin 0, Fin 5, Fin 5, Fin 5, Fin 5, Fin 5, Fin 4] =
     (Inr (), margherita\<lparr>rating_count := 8, rating := Fin (29 / 8)\<rparr>)"
    by (simp add: update_rating_def margherita_def cs rds)
  show ?thesis using a b by simp
qed

lemma subnormal_slack: "2 ^ 51 / (2 * 2 ^ DBL_SCALE) \<le> (1::real) / 2 ^ 53"
  by (simp add: DBL_SCALE_def)

lemma abs_sum3: "\<bar>a + b + c\<bar> \<le> \<bar>a\<bar> + \<bar>b\<bar> + \<bar>c\<bar>" for a b c :: real
  by linarith

lemma round_to_double_bounded:
  assumes "0 \<le> v" "v \<le> of_int b" "0 \<le> b" "b < 2 ^ 53"
  shows "\<exists>y. round_to_double v = Fin y \<and> 0 \<le> y \<and> y \<le> of_int b \<and>
    \<bar>y - v\<bar> \<le> of_int b / 2 ^ 53 + 1 / (2 * 2 ^ DBL_SCALE)"
proof -
  have ex: "round_to_double (of_int b) = Fin (of_int b)"
    using assms(3,4) by (intro round_to_double_of_int) simp
  from round_to_double_upper [OF ex assms(1,2)]
  obtain y where y: "round_to_double v = Fin y" "0 \<le> y" "y \<le> of_int b" by auto
  have "real_of_int b < 2 ^ 53" using assms(4) by (metis of_int_less_numeral_power_cancel_iff)
  also have "(2::real) ^ 53 \<le> 2 ^ 1023" by (intro power_increasing) simp_all
  finally have "v < 2 ^ 1023" using assms(2) by linarith
  from round_to_double_error [OF assms(1) this] y(1)
  have "\<bar>y - v\<bar> \<le> v / 2 ^ 53 + 1 / (2 * 2 ^ DBL_SCALE)" by auto
  moreover have "v / 2 ^ 53 \<le> of_int b / 2 ^ 53" using assms(2) by (rule divide_right_mono) simp
  ultimately have "\<bar>y - v\<bar> \<le> of_int b / 2 ^ 53 + 1 / (2 * 2 ^ DBL_SCALE)" by linarith
  with y show ?thesis by auto
qed

lemma update_rating_step:
  assumes q: "rating q = Fin r" and r: "0 \<le> r" "r \<le> 5"
    and k: "0 \<le> rating_count q" "rating_count q + 1 \<le> 2 ^ 50"
    and x: "0 \<le> x" "x \<le> 5"
  shows "\<exists>r'. update_rating q (Fin x) =
        (Inr (), q\<lparr>rating_count := rating_count q + 1, rating := Fin r'\<rparr>) \<and>
      0 \<le> r' \<and> r' \<le> 5 \<and>
      \<bar>r' * (of_int (rating_count q) + 1) - (r * of_int (rating_count q) + x)\<bar> \<le>
        (15 * of_int (rating_count q) + 11) / 2 ^ 53"
proof -
  define n where "n = rating_count q"
  define c where "c = real_of_int n"
  define u :: real where "u = 1 / 2 ^ 53"
  define h :: real where "h = 1 / (2 * 2 ^ DBL_SCALE)"
  have n0: "0 \<le> n" and n50: "n + 1 \<le> 2 ^ 50" using k by (simp_all add: n_def)
  have c0: "0 \<le> c" using n0 by (simp add: c_def)
  have "real_of_int (n + 1) \<le> real_of_int (2 ^ 50)" using n50 by (simp only: of_int_le_iff)
  then have c50: "c + 1 \<le> 2 ^ 50" by (simp add: c_def)
  have u0: "0 \<le> u" by (simp add: u_def)
  have h0: "0 \<le> h" by (simp add: h_def)
  have fc: "float_of_int n = Inr (Fin c)"
    unfolding c_def using n0 n50 by (intro float_of_int_exact) simp
  have fc1: "float_of_int (n + 1) = Inr (Fin (c + 1))"
    using float_of_int_exact [of "n + 1"] n0 n50 by (simp add: c_def)
  \<comment> \<open>the product\<close>
  have "r * c \<le> 5 * c" using r(2) c0 by (rule mult_right_mono)
  then have pv: "0 \<le> r * c" "r * c \<le> of_int (5 * n)" using r(1) c0 by (simp_all add: c_def)
  have "0 \<le> 5 * n" "5 * n < 2 ^ 53" using n0 n50 by simp_all
  from round_to_double_bounded [OF pv this]
  obtain p where p: "round_to_double (r * c) = Fin p" "0 \<le> p" "p \<le> 5 * c"
    and pe: "\<bar>p - r * c\<bar> \<le> 5 * c * u + h"
    by (auto simp: c_def u_def h_def)
  \<comment> \<open>the sum\<close>
  have tv: "0 \<le> p + x" "p + x \<le> of_int (5 * n + 5)" using p(2,3) x by (simp_all add: c_def)
  have "0 \<le> 5 * n + 5" "5 * n + 5 < 2 ^ 53" using n0 n50 by simp_all
  from round_to_double_bounded [OF tv this]
  obtain t where t: "round_to_double (p + x) = Fin t" "0 \<le> t" "t \<le> 5 * c + 5"
    and te: "\<bar>t - (p + x)\<bar> \<le> (5 * c + 5) * u + h"
    by (auto simp: c_def u_def h_def)
  \<comment> \<open>the quotient\<close>
  have c1: "0 < c + 1" using c0 by simp
  have "t / (c + 1) \<le> 5" using t(3) c1 by (simp add: divide_le_eq)
  then have rv: "0 \<le> t / (c + 1)" "t / (c + 1) \<le> of_int 5" using t(2) c1 by simp_all
  have "(0::int) \<le> 5" "(5::int) < 2 ^ 53" by simp_all
  from round_to_double_bounded [OF rv this]
  obtain r' where r': "round_to_double (t / (c + 1)) = Fin r'" "0 \<le> r'" "r' \<le> 5"
    and re: "\<bar>r' - t / (c + 1)\<bar> \<le> 5 * u + h"
    by (auto simp: u_def h_def)
  \<comment> \<open>the call\<close>
  have "c + 1 \<noteq> 0" using c1 by simp
  then have call: "update_rating q (Fin x) =
      (Inr (), q\<lparr>rating_count := n + 1, rating := Fin r'\<rparr>)"
    using x by (simp add: update_rating_def q n_def [symmetric] fc fc1 p(1) t(1) r'(1))
  \<comment> \<open>the error of the three roundings\<close>
  have split: "r' * (c + 1) - (r * c + x) =
      (r' - t / (c + 1)) * (c + 1) + (t - (p + x)) + (p - r * c)"
    using c1 by (simp add: field_simps)
  have "\<bar>(r' - t / (c + 1)) * (c + 1)\<bar> = \<bar>r' - t / (c + 1)\<bar> * (c + 1)"
    using c1 by (simp add: abs_mult)
  also have "\<dots> \<le> (5 * u + h) * (c + 1)" using re c1 by (intro mult_right_mono) simp_all
  finally have e1: "\<bar>(r' - t / (c + 1)) * (c + 1)\<bar> \<le> (5 * u + h) * (c + 1)" .
  have "\<bar>r' * (c + 1) - (r * c + x)\<bar> \<le>
      \<bar>(r' - t / (c + 1)) * (c + 1)\<bar> + \<bar>t - (p + x)\<bar> + \<bar>p - r * c\<bar>"
    unfolding split by (rule abs_sum3)
  also have "\<dots> \<le> (5 * u + h) * (c + 1) + ((5 * c + 5) * u + h) + (5 * c * u + h)"
    using e1 te pe by linarith
  also have "\<dots> = (15 * c + 10) * u + h * (c + 3)" by (simp add: algebra_simps)
  finally have total: "\<bar>r' * (c + 1) - (r * c + x)\<bar> \<le> (15 * c + 10) * u + h * (c + 3)" .
  have "c + 3 \<le> 2 ^ 51" using c50 by simp
  then have "h * (c + 3) \<le> h * 2 ^ 51" using h0 by (rule mult_left_mono)
  also have "h * 2 ^ 51 = 2 ^ 51 / (2 * 2 ^ DBL_SCALE)" by (simp add: h_def)
  also have "\<dots> \<le> u" unfolding u_def by (rule subnormal_slack)
  finally have "h * (c + 3) \<le> u" .
  with total have "\<bar>r' * (c + 1) - (r * c + x)\<bar> \<le> (15 * c + 11) * u"
    by (simp add: algebra_simps)
  then have "\<bar>r' * (c + 1) - (r * c + x)\<bar> \<le> (15 * c + 11) / 2 ^ 53" by (simp add: u_def)
  with call r'(2,3) show ?thesis unfolding c_def n_def by blast
qed

lemma update_ratings_tolerance:
  assumes "\<forall>x\<in>set xs. 0 \<le> x \<and> x \<le> 5" "rating q = Fin r" "0 \<le> r" "r \<le> 5"
    "0 \<le> rating_count q" "rating_count q + int (length xs) \<le> 2 ^ 50"
    "\<bar>r * of_int (rating_count q) - S\<bar> \<le> 16 * (of_int (rating_count q))\<^sup>2 / 2 ^ 53"
  shows "\<exists>r'. update_ratings q (map Fin xs) =
        (Inr (), q\<lparr>rating_count := rating_count q + int (length xs), rating := Fin r'\<rparr>) \<and>
      0 \<le> r' \<and> r' \<le> 5 \<and>
      \<bar>r' * of_int (rating_count q + int (length xs)) - (S + sum_list xs)\<bar> \<le>
        16 * (of_int (rating_count q + int (length xs)))\<^sup>2 / 2 ^ 53"
  using assms
proof (induction xs arbitrary: q r S)
  case Nil
  have "q\<lparr>rating := rating q\<rparr> = q" by simp
  then have eq: "q\<lparr>rating := Fin r\<rparr> = q" by (simp only: Nil.prems(2))
  have "update_ratings q (map Fin []) =
      (Inr (), q\<lparr>rating_count := rating_count q + int (length ([]::real list)), rating := Fin r\<rparr>)"
    by (simp add: eq)
  moreover have "\<bar>r * of_int (rating_count q + int (length ([]::real list))) - (S + sum_list [])\<bar> \<le>
      16 * (of_int (rating_count q + int (length ([]::real list))))\<^sup>2 / 2 ^ 53"
    using Nil.prems(7) by simp
  ultimately show ?case using Nil.prems(3,4) by blast
next
  case (Cons x xs)
  let ?c = "real_of_int (rating_count q)"
  from Cons.prems(1) have x: "0 \<le> x" "x \<le> 5" and xs: "\<forall>x\<in>set xs. 0 \<le> x \<and> x \<le> 5"
    by simp_all
  have k1: "rating_count q + 1 \<le> 2 ^ 50" using Cons.prems(6) by simp
  from update_rating_step [OF Cons.prems(2,3,4,5) k1 x]
  obtain r1 where step: "update_rating q (Fin x) =
        (Inr (), q\<lparr>rating_count := rating_count q + 1, rating := Fin r1\<rparr>)"
    and r1: "0 \<le> r1" "r1 \<le> 5"
    and e1: "\<bar>r1 * (?c + 1) - (r * ?c + x)\<bar> \<le> (15 * ?c + 11) / 2 ^ 53"
    by blast
  let ?q1 = "q\<lparr>rating_count := rating_count q + 1, rating := Fin r1\<rparr>"
  have c0: "0 \<le> ?c" using Cons.prems(5) by simp
  have "\<bar>r1 * (?c + 1) - (S + x)\<bar> \<le> \<bar>r1 * (?c + 1) - (r * ?c + x)\<bar> + \<bar>r * ?c - S\<bar>"
    by linarith
  also have "\<dots> \<le> (15 * ?c + 11) / 2 ^ 53 + 16 * ?c\<^sup>2 / 2 ^ 53"
    using e1 Cons.prems(7) by linarith
  also have "\<dots> \<le> 16 * (?c + 1)\<^sup>2 / 2 ^ 53"
    using c0 by (simp add: power2_eq_square field_simps)
  finally have inv: "\<bar>r1 * of_int (rating_count ?q1) - (S + x)\<bar> \<le>
      16 * (of_int (rating_count ?q1))\<^sup>2 / 2 ^ 53"
    by simp
  have rq1: "rating ?q1 = Fin r1" by simp
  have n1: "0 \<le> rating_count ?q1" using Cons.prems(5) by simp
  have b1: "rating_count ?q1 + int (length xs) \<le> 2 ^ 50" using Cons.prems(6) by simp
  from Cons.IH [OF xs rq1 r1 n1 b1 inv]
  obtain r' where run: "update_ratings ?q1 (map Fin xs) =
        (Inr (), ?q1\<lparr>rating_count := rating_count ?q1 + int (length xs), rating := Fin r'\<rparr>)"
    and r': "0 \<le> r'" "r' \<le> 5"
    and e: "\<bar>r' * of_int (rating_count ?q1 + int (length xs)) - (S + x + sum_list xs)\<bar> \<le>
        16 * (of_int (rating_count ?q1 + int (length xs)))\<^sup>2 / 2 ^ 53"
    by blast
  have cnt: "rating_count ?q1 + int (length xs) = rating_count q + int (length (x # xs))"
    by simp
  have "update_ratings q (map Fin (x # xs)) =
      (Inr (), q\<lparr>rating_count := rating_count q + int (length (x # xs)), rating := Fin r'\<rparr>)"
    using run by (simp add: step add.assoc)
  moreover have "\<bar>r' * of_int (rating_count q + int (length (x # xs))) - (S + sum_list (x # xs))\<bar> \<le>
        16 * (of_int (rating_count q + int (length (x # xs))))\<^sup>2 / 2 ^ 53"
    using e unfolding cnt by (simp add: add.assoc)
  ultimately show ?case using r' by blast
qed

lemma update_ratings_near_mean:
  assumes "\<forall>x\<in>set xs. 0 \<le> x \<and> x \<le> 5" "rating p = Fin 0" "rating_count p = 0"
    "int (length xs) \<le> 2 ^ 50"
  shows "\<exists>r. update_ratings p (map Fin xs) =
        (Inr (), p\<lparr>rating_count := int (length xs), rating := Fin r\<rparr>) \<and>
      0 \<le> r \<and> r \<le> 5 \<and>
      (xs \<noteq> [] \<longrightarrow> \<bar>r - sum_list xs / real (length xs)\<bar> \<le> real (length xs) / 2 ^ 49)"
proof -
  have a: "(0::real) \<le> 0" "(0::real) \<le> 5" "0 \<le> rating_count p"
    "rating_count p + int (length xs) \<le> 2 ^ 50"
    "\<bar>0 * real_of_int (rating_count p) - 0\<bar> \<le> 16 * (real_of_int (rating_count p))\<^sup>2 / 2 ^ 53"
    using assms(3,4) by simp_all
  from update_ratings_tolerance [OF assms(1,2) a]
  obtain r where run: "update_ratings p (map Fin xs) =
        (Inr (), p\<lparr>rating_count := int (length xs), rating := Fin r\<rparr>)"
    and r: "0 \<le> r" "r \<le> 5"
    and e: "\<bar>r * real (length xs) - sum_list xs\<bar> \<le> 16 * (real (length xs))\<^sup>2 / 2 ^ 53"
    by (auto simp: assms(3))
  have "\<bar>r - sum_list xs / real (length xs)\<bar> \<le> real (length xs) / 2 ^ 49" if "xs \<noteq> []"
  proof -
    let ?n = "real (length xs)"
    have n: "0 < ?n" using that by simp
    have "r - sum_list xs / ?n = (r * ?n - sum_list xs) / ?n" using n by (simp add: field_simps)
    then have "\<bar>r - sum_list xs / ?n\<bar> = \<bar>r * ?n - sum_list xs\<bar> / ?n"
      using n by (simp add: abs_divide)
    also have "\<dots> \<le> (16 * ?n\<^sup>2 / 2 ^ 53) / ?n" using e n by (intro divide_right_mono) simp_all
    also have "\<dots> = ?n / 2 ^ 49" using n by (simp add: power2_eq_square)
    finally show ?thesis .
  qed
  with run r show ?thesis by blast
qed

text \<open>
  C3, as the code has it. Ratings \<open>xs\<close>, each a finite value within [0, 5] and at most
  \<open>2 ^ 50\<close> of them, submitted one after the other to a pizza whose rating is 0.0 and
  whose count is 0: every call succeeds, the count ends at the length \<open>n\<close> of \<open>xs\<close>, and
  the rating ends at a double within [0, 5] that differs from the arithmetic mean of
  \<open>xs\<close> by at most \<open>n / 2 ^ 49\<close>. Every rearrangement of \<open>xs\<close> ends at the same count
  and at a rating that differs from the first by at most \<open>n / 2 ^ 48\<close>. One call with a
  rating within [0, 5], on a count that is not negative and below \<open>2 ^ 53 - 1\<close>, stores
  the quotient of \<open>rating * rating_count + new_rating\<close> by \<open>rating_count + 1\<close>, the
  product, the sum and the quotient each rounded to a double, and adds one to the count.
\<close>

theorem update_rating_running_mean:
  "((\<forall>x\<in>set xs. 0 \<le> x \<and> x \<le> 5) \<and> rating p = Fin 0 \<and> rating_count p = 0 \<and>
    int (length xs) \<le> 2 ^ 50 \<longrightarrow>
      (\<exists>r. update_ratings p (map Fin xs) =
             (Inr (), p\<lparr>rating_count := int (length xs), rating := Fin r\<rparr>) \<and>
           0 \<le> r \<and> r \<le> 5 \<and>
           (xs \<noteq> [] \<longrightarrow> \<bar>r - sum_list xs / real (length xs)\<bar> \<le> real (length xs) / 2 ^ 49) \<and>
           (\<forall>xs'. mset xs' = mset xs \<longrightarrow>
              (\<exists>r'. update_ratings p (map Fin xs') =
                      (Inr (), p\<lparr>rating_count := int (length xs), rating := Fin r'\<rparr>) \<and>
                    \<bar>r' - r\<bar> \<le> real (length xs) / 2 ^ 48)))) \<and>
   (\<forall>q x. 0 \<le> rating_count q \<and> rating_count q + 1 < 2 ^ 53 \<and>
          float_le (Fin 0) x \<and> float_le x (Fin 5) \<longrightarrow>
      (\<exists>v. float_truediv
              (float_add (float_mul (rating q) (Fin (of_int (rating_count q)))) x)
              (Fin (of_int (rating_count q) + 1)) = Inr v \<and>
           update_rating q x =
             (Inr (), q\<lparr>rating_count := rating_count q + 1, rating := v\<rparr>)))"
proof (intro conjI impI allI)
  assume a: "(\<forall>x\<in>set xs. 0 \<le> x \<and> x \<le> 5) \<and> rating p = Fin 0 \<and> rating_count p = 0 \<and>
    int (length xs) \<le> 2 ^ 50"
  then have xs: "\<forall>x\<in>set xs. 0 \<le> x \<and> x \<le> 5" and p: "rating p = Fin 0" "rating_count p = 0"
    and n: "int (length xs) \<le> 2 ^ 50" by simp_all
  from update_ratings_near_mean [OF xs p n]
  obtain r where run: "update_ratings p (map Fin xs) =
        (Inr (), p\<lparr>rating_count := int (length xs), rating := Fin r\<rparr>)"
    and r: "0 \<le> r" "r \<le> 5"
    and e: "xs \<noteq> [] \<longrightarrow> \<bar>r - sum_list xs / real (length xs)\<bar> \<le> real (length xs) / 2 ^ 49"
    by blast
  have "\<exists>r'. update_ratings p (map Fin xs') =
          (Inr (), p\<lparr>rating_count := int (length xs), rating := Fin r'\<rparr>) \<and>
        \<bar>r' - r\<bar> \<le> real (length xs) / 2 ^ 48" if m: "mset xs' = mset xs" for xs'
  proof -
    have set_eq: "set xs' = set xs" using m by (rule mset_eq_setD)
    have len_eq: "length xs' = length xs" using m by (rule mset_eq_length)
    have sum_eq: "sum_list xs' = sum_list xs" using m by (metis sum_mset_sum_list)
    have xs': "\<forall>x\<in>set xs'. 0 \<le> x \<and> x \<le> 5" using xs set_eq by simp
    have n': "int (length xs') \<le> 2 ^ 50" using n len_eq by simp
    from update_ratings_near_mean [OF xs' p n']
    obtain r' where run': "update_ratings p (map Fin xs') =
          (Inr (), p\<lparr>rating_count := int (length xs), rating := Fin r'\<rparr>)"
      and e': "xs \<noteq> [] \<longrightarrow> \<bar>r' - sum_list xs / real (length xs)\<bar> \<le> real (length xs) / 2 ^ 49"
      unfolding len_eq sum_eq using len_eq by auto
    have "\<bar>r' - r\<bar> \<le> real (length xs) / 2 ^ 48"
    proof (cases "xs = []")
      case True
      then have "xs' = []" using len_eq by simp
      with run' True have "p = p\<lparr>rating := Fin r'\<rparr>" by (simp add: p(2)[symmetric])
      then have "rating p = rating (p\<lparr>rating := Fin r'\<rparr>)" by (rule arg_cong)
      then have r'0: "r' = 0" by (simp add: p(1))
      from run True have "p = p\<lparr>rating := Fin r\<rparr>" by (simp add: p(2)[symmetric])
      then have "rating p = rating (p\<lparr>rating := Fin r\<rparr>)" by (rule arg_cong)
      then have "r = 0" by (simp add: p(1))
      with r'0 show ?thesis by simp
    next
      case False
      let ?m = "sum_list xs / real (length xs)"
      have "\<bar>r' - r\<bar> \<le> \<bar>r' - ?m\<bar> + \<bar>r - ?m\<bar>" by linarith
      also have "\<dots> \<le> real (length xs) / 2 ^ 49 + real (length xs) / 2 ^ 49"
        using e e' False by (intro add_mono) simp_all
      also have "\<dots> = real (length xs) / 2 ^ 48" by simp
      finally show ?thesis .
    qed
    with run' show ?thesis by blast
  qed
  with run r e show "\<exists>r. update_ratings p (map Fin xs) =
             (Inr (), p\<lparr>rating_count := int (length xs), rating := Fin r\<rparr>) \<and>
           0 \<le> r \<and> r \<le> 5 \<and>
           (xs \<noteq> [] \<longrightarrow> \<bar>r - sum_list xs / real (length xs)\<bar> \<le> real (length xs) / 2 ^ 49) \<and>
           (\<forall>xs'. mset xs' = mset xs \<longrightarrow>
              (\<exists>r'. update_ratings p (map Fin xs') =
                      (Inr (), p\<lparr>rating_count := int (length xs), rating := Fin r'\<rparr>) \<and>
                    \<bar>r' - r\<bar> \<le> real (length xs) / 2 ^ 48))"
    by blast
next
  fix q :: pizza and x :: pyfloat
  assume a: "0 \<le> rating_count q \<and> rating_count q + 1 < 2 ^ 53 \<and>
          float_le (Fin 0) x \<and> float_le x (Fin 5)"
  then obtain y where x: "x = Fin y" and y: "0 \<le> y" "y \<le> 5" by (cases x) simp_all
  let ?c = "real_of_int (rating_count q)"
  have fc: "float_of_int (rating_count q) = Inr (Fin ?c)"
    using a by (intro float_of_int_exact) simp
  have fc1: "float_of_int (rating_count q + 1) = Inr (Fin (?c + 1))"
    using float_of_int_exact [of "rating_count q + 1"] a by simp
  have nz: "?c + 1 \<noteq> 0" using a by (simp add: add_nonneg_eq_0_iff)
  then obtain v where v: "float_truediv
      (float_add (float_mul (rating q) (Fin ?c)) x) (Fin (?c + 1)) = Inr v"
    by (cases "float_add (float_mul (rating q) (Fin ?c)) x") simp_all
  have "update_rating q x = (Inr (), q\<lparr>rating_count := rating_count q + 1, rating := v\<rparr>)"
    using y v by (simp add: update_rating_def x fc fc1)
  with v show "\<exists>v. float_truediv
              (float_add (float_mul (rating q) (Fin (of_int (rating_count q)))) x)
              (Fin (of_int (rating_count q) + 1)) = Inr v \<and>
           update_rating q x =
             (Inr (), q\<lparr>rating_count := rating_count q + 1, rating := v\<rparr>)"
    by blast
qed

theorem update_rating_running_mean_witness:
  "(\<exists>r. update_ratings margherita [Fin 1, Fin 0, Fin 0] =
          (Inr (), margherita\<lparr>rating_count := 3, rating := Fin r\<rparr>) \<and>
        \<bar>r - 1 / 3\<bar> \<le> 3 / 2 ^ 49) \<and>
   (\<exists>r'. update_ratings margherita [Fin 0, Fin 0, Fin 1] =
          (Inr (), margherita\<lparr>rating_count := 3, rating := Fin r'\<rparr>) \<and>
        \<bar>r' - 1 / 3\<bar> \<le> 3 / 2 ^ 49) \<and>
   update_rating margherita (Fin 4) =
     (Inr (), margherita\<lparr>rating_count := 1, rating := Fin 4\<rparr>)"
proof -
  have h: "(\<forall>x\<in>set [1, 0, 0 :: real]. 0 \<le> x \<and> x \<le> 5) \<and> rating margherita = Fin 0 \<and>
      rating_count margherita = 0 \<and> int (length [1, 0, 0 :: real]) \<le> 2 ^ 50"
    by (simp add: margherita_def)
  have h': "(\<forall>x\<in>set [0, 0, 1 :: real]. 0 \<le> x \<and> x \<le> 5) \<and> rating margherita = Fin 0 \<and>
      rating_count margherita = 0 \<and> int (length [0, 0, 1 :: real]) \<le> 2 ^ 50"
    by (simp add: margherita_def)
  note t = update_rating_running_mean [where p = margherita and xs = "[1, 0, 0]",
      THEN conjunct1, THEN mp, OF h]
  note t' = update_rating_running_mean [where p = margherita and xs = "[0, 0, 1]",
      THEN conjunct1, THEN mp, OF h']
  from t obtain r where r: "update_ratings margherita (map Fin [1, 0, 0]) =
        (Inr (), margherita\<lparr>rating_count := int (length [1, 0, 0 :: real]), rating := Fin r\<rparr>)"
      "[1, 0, 0 :: real] \<noteq> [] \<longrightarrow>
        \<bar>r - sum_list [1, 0, 0] / real (length [1, 0, 0 :: real])\<bar> \<le>
          real (length [1, 0, 0 :: real]) / 2 ^ 49"
    by blast
  from t' obtain r' where r': "update_ratings margherita (map Fin [0, 0, 1]) =
        (Inr (), margherita\<lparr>rating_count := int (length [0, 0, 1 :: real]), rating := Fin r'\<rparr>)"
      "[0, 0, 1 :: real] \<noteq> [] \<longrightarrow>
        \<bar>r' - sum_list [0, 0, 1] / real (length [0, 0, 1 :: real])\<bar> \<le>
          real (length [0, 0, 1 :: real]) / 2 ^ 49"
    by blast
  have 1: "\<exists>r. update_ratings margherita [Fin 1, Fin 0, Fin 0] =
          (Inr (), margherita\<lparr>rating_count := 3, rating := Fin r\<rparr>) \<and>
        \<bar>r - 1 / 3\<bar> \<le> 3 / 2 ^ 49"
    using r by (intro exI [of _ r]) simp
  have 2: "\<exists>r'. update_ratings margherita [Fin 0, Fin 0, Fin 1] =
          (Inr (), margherita\<lparr>rating_count := 3, rating := Fin r'\<rparr>) \<and>
        \<bar>r' - 1 / 3\<bar> \<le> 3 / 2 ^ 49"
    using r' by (intro exI [of _ r']) simp
  have s: "0 \<le> rating_count margherita \<and> rating_count margherita + 1 < 2 ^ 53 \<and>
      float_le (Fin 0) (Fin 4) \<and> float_le (Fin 4) (Fin 5)"
    by (simp add: margherita_def)
  note st = update_rating_running_mean [where p = margherita and xs = "[1, 0, 0]",
      THEN conjunct2, THEN spec, of margherita, THEN spec, of "Fin 4", THEN mp, OF s]
  have z: "round_to_double 0 = Fin 0" using round_to_double_of_int [of 0] by simp
  have f: "round_to_double 4 = Fin 4" using round_to_double_of_int [of 4] by simp
  have v: "float_truediv
      (float_add (float_mul (rating margherita) (Fin (of_int (rating_count margherita)))) (Fin 4))
      (Fin (of_int (rating_count margherita) + 1)) = Inr (Fin 4)"
    by (simp add: margherita_def z f)
  have 3: "update_rating margherita (Fin 4) =
      (Inr (), margherita\<lparr>rating_count := 1, rating := Fin 4\<rparr>)"
    using st v by (auto simp: margherita_def)
  show ?thesis using 1 2 3 by simp
qed

end
